theory Spec2Isabelle
  imports Complex_Main "HOL-Library.Finite_Map" "HOL-Library.Product_Lexorder"
begin

section \<open>Conventions of the embedding\<close>

text \<open>
  Python floats and numpy float64 values are embedded as \<^typ>\<open>real\<close>: the arithmetic of the
  model is exact, without rounding, overflow or underflow. Of the IEEE special values only the
  \<open>-inf\<close> that \<open>numpy.log\<close> returns for a zero discount factor is modelled (as \<open>None\<close>, see
  \<open>log_df\<close>), because its exponential is the ordinary float \<open>0.0\<close>; the nan of a logarithm of a
  negative number or of a float64 division \<open>0 / 0\<close> has no counterpart here. A Python
  exception is a value of type \<open>error\<close>; a function that can raise returns \<open>error + 'a\<close>.
\<close>

datatype error = ValueError string | IndexError | ZeroDivisionError | KeyError string

text \<open>Python's \<open>round\<close> and \<open>numpy.round\<close>: to the nearest integer, a tie to the even one.\<close>

definition py_round :: "real \<Rightarrow> int" where
  "py_round x =
     (let f = \<lfloor>x\<rfloor>; d = x - of_int f
      in if d < 1 / 2 then f else if 1 / 2 < d then f + 1
         else if even f then f else f + 1)"

subsection \<open>numpy.interp\<close>

text \<open>
  \<open>numpy.interp x xp fp\<close> on sample points sorted by \<open>xp\<close>: the value of \<open>fp\<close> at the first
  point left of the range and at the last point right of it; inside, the scan stops at the last
  index \<open>j\<close> with \<open>xp[j] \<le> x\<close> and returns \<open>fp[j]\<close> when \<open>j\<close> is the last index or \<open>xp[j] = x\<close>,
  the value on the chord to point \<open>j + 1\<close> otherwise. numpy raises for empty sample arrays;
  every caller below passes the arrays of a constructed curve or of a non-empty quote table.
\<close>

fun interp_scan :: "real \<Rightarrow> (real \<times> real) list \<Rightarrow> real" where
  "interp_scan x [] = 0"
| "interp_scan x [(a, b)] = b"
| "interp_scan x ((a, b) # (c, d) # ps) =
     (if c \<le> x then interp_scan x ((c, d) # ps)
      else if a = x then b
      else (d - b) / (c - a) * (x - a) + b)"

definition np_interp :: "real \<Rightarrow> real list \<Rightarrow> real list \<Rightarrow> real" where
  "np_interp x xp fp =
     (let ps = zip xp fp
      in if ps = [] then 0
         else if x < fst (hd ps) then snd (hd ps)
         else if fst (last ps) < x then snd (last ps)
         else interp_scan x ps)"

section \<open>curves.py\<close>

record CurvePoint =
  tenor :: real
  rate :: real

text \<open>
  The name of a curve is a label; the labels that the risk engine derives with format strings
  are kept as constructors, so that no float has to be printed.
\<close>

datatype curve_name =
  Plain string
  | Bumped curve_name real
  | NonParallel curve_name
  | KeyRate curve_name real

record ZeroCurve =
  tenors :: "real list"
  zero_rates :: "real list"
  name :: curve_name
  discount_factors :: "real list option"

definition ZeroCurve_init ::
  "CurvePoint list \<Rightarrow> curve_name \<Rightarrow> real list option \<Rightarrow> error + ZeroCurve" where
  "ZeroCurve_init points nm dfs =
     (let pts = sort_key tenor points
      in case pts of
           [] \<Rightarrow> Inl IndexError
         | p # _ \<Rightarrow>
             if tenor p \<le> 0 then Inl (ValueError ''Tenors must be positive'')
             else (case dfs of
                     None \<Rightarrow>
                       Inr \<lparr>tenors = map tenor pts, zero_rates = map rate pts, name = nm,
                            discount_factors = None\<rparr>
                   | Some ds \<Rightarrow>
                       if length ds \<noteq> length pts
                       then Inl (ValueError ''Discount factors must align with tenor points'')
                       else Inr \<lparr>tenors = map tenor pts, zero_rates = map rate pts, name = nm,
                                 discount_factors = Some ds\<rparr>))"

definition zero_rate :: "ZeroCurve \<Rightarrow> real \<Rightarrow> real" where
  "zero_rate c t =
     (if t \<le> 0 then hd (zero_rates c)
      else if last (tenors c) \<le> t then last (zero_rates c)
      else np_interp t (tenors c) (zero_rates c))"

text \<open>
  The logarithms of the cached discount factors, as \<open>discount_factor\<close> interpolates them.
  \<open>numpy.log\<close> of a zero discount factor is \<open>-inf\<close>, which is \<open>None\<close> here, and
  \<open>numpy.interp\<close> on such values returns the value of a sample point hit exactly and \<open>-inf\<close>
  on a chord with an infinite end (it evaluates the chord from the left point and, when that is
  nan, from the right point, and takes the common value of two equal ends); \<open>numpy.exp\<close> of
  \<open>-inf\<close> is \<open>0.0\<close>.
\<close>

definition log_df :: "real \<Rightarrow> real option" where
  "log_df d = (if d = 0 then None else Some (ln d))"

fun interp_scan_log :: "real \<Rightarrow> (real \<times> real option) list \<Rightarrow> real option" where
  "interp_scan_log x [] = None"
| "interp_scan_log x [(a, b)] = b"
| "interp_scan_log x ((a, b) # (c, d) # ps) =
     (if c \<le> x then interp_scan_log x ((c, d) # ps)
      else if a = x then b
      else (case (b, d) of
              (Some u, Some v) \<Rightarrow> Some ((v - u) / (c - a) * (x - a) + u)
            | _ \<Rightarrow> None))"

definition np_interp_log :: "real \<Rightarrow> real list \<Rightarrow> real option list \<Rightarrow> real option" where
  "np_interp_log x xp fp =
     (let ps = zip xp fp
      in if ps = [] then None
         else if x < fst (hd ps) then snd (hd ps)
         else if fst (last ps) < x then snd (last ps)
         else interp_scan_log x ps)"

definition exp_log :: "real option \<Rightarrow> real" where
  "exp_log l = (case l of None \<Rightarrow> 0 | Some v \<Rightarrow> exp v)"

definition discount_factor :: "ZeroCurve \<Rightarrow> real \<Rightarrow> real" where
  "discount_factor c t =
     (if t \<le> 0 then 1
      else case discount_factors c of
             Some ds \<Rightarrow>
               if t \<le> hd (tenors c) then exp (- hd (zero_rates c) * t)
               else if last (tenors c) \<le> t
               then last ds * exp (- last (zero_rates c) * (t - last (tenors c)))
               else exp_log (np_interp_log t (tenors c) (map log_df ds))
           | None \<Rightarrow> exp (- zero_rate c t * t))"

text \<open>
  \<open>discount_factor\<close> returns Python floats, so the quotient in \<open>forward_rate\<close> is a Python
  float division, which raises on a zero divisor.
\<close>

definition forward_rate :: "ZeroCurve \<Rightarrow> real \<Rightarrow> real \<Rightarrow> error + real" where
  "forward_rate c start endt =
     (if endt \<le> start then Inl (ValueError ''End tenor must be greater than start tenor'')
      else let df_start = discount_factor c start; df_end = discount_factor c endt
           in if df_end = 0 then Inl ZeroDivisionError
              else Inr (ln (df_start / df_end) / (endt - start)))"

text \<open>The curves that exist at run time are the ones the constructor returned.\<close>

definition constructed :: "ZeroCurve \<Rightarrow> bool" where
  "constructed c \<longleftrightarrow>
     tenors c \<noteq> [] \<and> sorted (tenors c) \<and> 0 < hd (tenors c) \<and>
     length (zero_rates c) = length (tenors c) \<and>
     (case discount_factors c of None \<Rightarrow> True | Some ds \<Rightarrow> length ds = length (tenors c))"

subsection \<open>numpy.diff and the bootstrap\<close>

definition np_diff :: "real list \<Rightarrow> real list" where
  "np_diff xs = map2 (\<lambda>a b. b - a) xs (tl xs)"

text \<open>
  The loop of \<open>from_par_swap_dataframe\<close>: \<open>dfs\<close> holds the discount factors written so far, so
  its length is the loop index \<open>idx\<close>, and \<open>todo\<close> the remaining pairs of \<open>zip(tenors, accruals)\<close>.
\<close>

fun bootstrap_loop ::
  "real list \<Rightarrow> real list \<Rightarrow> real list \<Rightarrow> real list \<Rightarrow> (real \<times> real) list \<Rightarrow> real list" where
  "bootstrap_loop par_tenors par_rates accruals dfs [] = dfs"
| "bootstrap_loop par_tenors par_rates accruals dfs ((t, accrual) # todo) =
     (let par_rate = np_interp t par_tenors par_rates; idx = length dfs
      in if idx = 0
         then bootstrap_loop par_tenors par_rates accruals
                (dfs @ [1 / (1 + par_rate * accrual)]) todo
         else let pv_previous_coupons =
                    par_rate * sum_list (map2 (*) (take idx accruals) (take idx dfs));
                  numerator = 1 - pv_previous_coupons;
                  denominator = 1 + par_rate * accrual
              in bootstrap_loop par_tenors par_rates accruals
                   (dfs @ [numerator / denominator]) todo)"

text \<open>
  \<open>DataFrame.sort_values\<close> sorts with quicksort unless told otherwise, which is not stable: the
  result is sorted by the key and is a permutation of the table, and the order of rows with
  equal keys is not determined. The sorting routine is therefore a parameter \<open>sort_values\<close> of
  the bootstrap, and \<open>sort_values_by key\<close> is all that is assumed of it.
\<close>

definition sort_values_by :: "('a \<Rightarrow> 'k::linorder) \<Rightarrow> ('a list \<Rightarrow> 'a list) \<Rightarrow> bool" where
  "sort_values_by key sort_values \<longleftrightarrow>
     (\<forall>xs. (\<forall>x. count_list (sort_values xs) x = count_list xs x)
           \<and> sorted (map key (sort_values xs)))"

text \<open>
  The quote table is the list of its rows \<open>(tenor_years, rate)\<close>, so both required columns are
  there by type.
\<close>

definition from_par_swap_dataframe ::
  "((real \<times> real) list \<Rightarrow> (real \<times> real) list) \<Rightarrow> (real \<times> real) list \<Rightarrow> curve_name \<Rightarrow> int
     \<Rightarrow> error + ZeroCurve" where
  "from_par_swap_dataframe sort_values df nm payment_frequency =
     (if payment_frequency \<le> 0 then Inl (ValueError ''Payment frequency must be positive'')
      else let sorted_df = sort_values df;
               par_tenors = map fst sorted_df;
               par_rates = map snd sorted_df
           in if par_tenors = [] then Inl IndexError
              else let max_tenor = last par_tenors;
                       steps = py_round (max_tenor * of_int payment_frequency)
                   in if steps \<le> 0
                      then Inl (ValueError ''Insufficient tenor coverage for bootstrapping'')
                      else let ts = map (\<lambda>i. real i / of_int payment_frequency)
                                      [1 ..< Suc (nat steps)];
                               accruals = np_diff (0 # ts);
                               dfs = bootstrap_loop par_tenors par_rates accruals []
                                       (zip ts accruals);
                               rates = map2 (\<lambda>d t. - ln d / t) dfs ts;
                               points = map2 (\<lambda>t r. \<lparr>tenor = t, rate = r\<rparr>) ts rates
                           in ZeroCurve_init points nm (Some dfs))"

section \<open>Dates\<close>

text \<open>
  A \<open>datetime.date\<close>, with the ordinal of CPython's \<open>datetime\<close> module and the month
  arithmetic that \<open>Timestamp + DateOffset(months=n)\<close> performs: the month index moves by \<open>n\<close>
  and the day is cut back to the length of the month reached. The bounds on the year of
  \<open>datetime\<close> and of pandas timestamps are not modelled.
\<close>

record date =
  year :: int
  month :: int
  day :: int

definition is_leap :: "int \<Rightarrow> bool" where
  "is_leap y \<longleftrightarrow> y mod 4 = 0 \<and> (y mod 100 \<noteq> 0 \<or> y mod 400 = 0)"

definition days_in_month :: "int \<Rightarrow> int \<Rightarrow> int" where
  "days_in_month y m =
     (if m = 2 then (if is_leap y then 29 else 28)
      else if m = 4 \<or> m = 6 \<or> m = 9 \<or> m = 11 then 30 else 31)"

definition days_before_year :: "int \<Rightarrow> int" where
  "days_before_year y = (y - 1) * 365 + (y - 1) div 4 - (y - 1) div 100 + (y - 1) div 400"

definition days_before_month :: "int \<Rightarrow> int \<Rightarrow> int" where
  "days_before_month y m =
     [0, 31, 59, 90, 120, 151, 181, 212, 243, 273, 304, 334] ! nat (m - 1)
       + (if 2 < m \<and> is_leap y then 1 else 0)"

definition toordinal :: "date \<Rightarrow> int" where
  "toordinal d = days_before_year (year d) + days_before_month (year d) (month d) + day d"

definition valid_date :: "date \<Rightarrow> bool" where
  "valid_date d \<longleftrightarrow>
     1 \<le> month d \<and> month d \<le> 12 \<and> 1 \<le> day d \<and> day d \<le> days_in_month (year d) (month d)"

definition add_months :: "date \<Rightarrow> int \<Rightarrow> date" where
  "add_months d n =
     (let idx = month d - 1 + n; y = year d + idx div 12; m = idx mod 12 + 1
      in \<lparr>year = y, month = m, day = min (day d) (days_in_month y m)\<rparr>)"

definition date_key :: "date \<Rightarrow> int \<times> int \<times> int" where
  "date_key d = (year d, month d, day d)"

section \<open>daycount.py\<close>

definition actual_365 :: "date \<Rightarrow> date \<Rightarrow> real" where
  "actual_365 s e = of_int (toordinal e - toordinal s) / 365"

definition thirty_360 :: "date \<Rightarrow> date \<Rightarrow> real" where
  "thirty_360 s e =
     (let d1 = min (day s) 30;
          d2 = min (day e) (if day s = 30 then 30 else day e)
      in of_int ((year e - year s) * 360 + (month e - month s) * 30 + (d2 - d1)) / 360)"

definition upper_char :: "char \<Rightarrow> char" where
  "upper_char c =
     (let n = (of_char c :: nat) in if 97 \<le> n \<and> n \<le> 122 then char_of (n - 32) else c)"

definition upper :: "string \<Rightarrow> string" where
  "upper s = map upper_char s"

definition DAYCOUNT_FUNCTIONS :: "string \<Rightarrow> (date \<Rightarrow> date \<Rightarrow> real) option" where
  "DAYCOUNT_FUNCTIONS k =
     (if k = ''ACT/365'' then Some actual_365
      else if k = ''30/360'' then Some thirty_360 else None)"

definition year_fraction :: "date \<Rightarrow> date \<Rightarrow> string \<Rightarrow> error + real" where
  "year_fraction s e convention =
     (case DAYCOUNT_FUNCTIONS (upper convention) of
        None \<Rightarrow> Inl (ValueError (''Unsupported day count convention: '' @ convention))
      | Some func \<Rightarrow> Inr (func s e))"

section \<open>schedule.py\<close>

record CashflowPeriod =
  start :: date
  finish :: date
  accrual_factor :: real

fun schedule_loop ::
  "nat \<Rightarrow> date \<Rightarrow> int \<Rightarrow> string \<Rightarrow> CashflowPeriod list \<Rightarrow> error + CashflowPeriod list" where
  "schedule_loop 0 period_start step_months day_count periods = Inr periods"
| "schedule_loop (Suc n) period_start step_months day_count periods =
     (let period_end = add_months period_start step_months
      in case year_fraction period_start period_end day_count of
           Inl err \<Rightarrow> Inl err
         | Inr accrual \<Rightarrow>
             schedule_loop n period_end step_months day_count
               (periods @ [\<lparr>start = period_start, finish = period_end,
                            accrual_factor = accrual\<rparr>]))"

definition generate_schedule ::
  "date \<Rightarrow> real \<Rightarrow> int \<Rightarrow> string \<Rightarrow> error + CashflowPeriod list" where
  "generate_schedule st tenor_years payments_per_year day_count =
     (if payments_per_year \<le> 0 then Inl (ValueError ''Payments per year must be positive'')
      else let total_periods = py_round (tenor_years * of_int payments_per_year)
           in if total_periods = 0
              then Inl (ValueError ''Tenor coupled with frequency yields zero periods'')
              else let step_months = py_round (12 / of_int payments_per_year)
                   in schedule_loop (nat total_periods) st step_months day_count [])"

section \<open>swap_pricing.py\<close>

record SwapDefinition =
  valuation_date :: date
  effective_date :: date
  maturity_years :: real
  notional :: real
  fixed_rate :: real
  payer :: string
  fixed_leg_frequency :: int
  floating_leg_frequency :: int
  fixed_leg_daycount :: string
  floating_leg_daycount :: string
  spread :: real

text \<open>
  A row of the cashflow table. The column \<open>forward_rate\<close> is \<open>NaN\<close> on the fixed leg, which is
  \<open>None\<close> here; the columns whose names are taken by a function or by a field of
  \<open>CashflowPeriod\<close> carry the suffix \<open>_col\<close>.
\<close>

record cashflow_row =
  period_start :: date
  period_end :: date
  accrual_factor_col :: real
  coupon_rate :: real
  forward_rate_col :: "real option"
  cashflow :: real
  discount_factor_col :: real
  present_value :: real
  time_to_payment :: real
  leg :: string
  projection_rate :: real

record SwapPricer =
  discount_curve :: ZeroCurve
  forward_curve :: ZeroCurve

fun fixed_rows :: "SwapPricer \<Rightarrow> SwapDefinition \<Rightarrow> CashflowPeriod list \<Rightarrow> error + cashflow_row list" where
  "fixed_rows pricer swap [] = Inr []"
| "fixed_rows pricer swap (period # schedule) =
     (case year_fraction (valuation_date swap) (finish period) ''ACT/365'' of
        Inl err \<Rightarrow> Inl err
      | Inr t_pay \<Rightarrow>
          (let discount = discount_factor (discount_curve pricer) t_pay;
               cf = notional swap * fixed_rate swap * accrual_factor period;
               direction = (if payer swap = ''fixed'' then - 1 else 1);
               row = \<lparr>period_start = start period, period_end = finish period,
                      accrual_factor_col = accrual_factor period,
                      coupon_rate = fixed_rate swap, forward_rate_col = None,
                      cashflow = direction * cf, discount_factor_col = discount,
                      present_value = direction * cf * discount, time_to_payment = t_pay,
                      leg = ''fixed'', projection_rate = fixed_rate swap\<rparr>
           in case fixed_rows pricer swap schedule of
                Inl err \<Rightarrow> Inl err
              | Inr rows \<Rightarrow> Inr (row # rows)))"

definition build_fixed_cashflows :: "SwapPricer \<Rightarrow> SwapDefinition \<Rightarrow> error + cashflow_row list" where
  "build_fixed_cashflows pricer swap =
     (case generate_schedule (effective_date swap) (maturity_years swap)
             (fixed_leg_frequency swap) (fixed_leg_daycount swap) of
        Inl err \<Rightarrow> Inl err
      | Inr schedule \<Rightarrow> fixed_rows pricer swap schedule)"

fun floating_rows :: "SwapPricer \<Rightarrow> SwapDefinition \<Rightarrow> CashflowPeriod list \<Rightarrow> error + cashflow_row list" where
  "floating_rows pricer swap [] = Inr []"
| "floating_rows pricer swap (period # schedule) =
     (case year_fraction (valuation_date swap) (start period) ''ACT/365'' of
        Inl err \<Rightarrow> Inl err
      | Inr t_start \<Rightarrow>
     (case year_fraction (valuation_date swap) (finish period) ''ACT/365'' of
        Inl err \<Rightarrow> Inl err
      | Inr t_end \<Rightarrow>
     (case forward_rate (forward_curve pricer) t_start t_end of
        Inl err \<Rightarrow> Inl err
      | Inr forward \<Rightarrow>
          (let effective_rate = forward + spread swap;
               cf = notional swap * effective_rate * accrual_factor period;
               discount = discount_factor (discount_curve pricer) t_end;
               direction = (if payer swap = ''fixed'' then 1 else - 1);
               row = \<lparr>period_start = start period, period_end = finish period,
                      accrual_factor_col = accrual_factor period,
                      coupon_rate = effective_rate, forward_rate_col = Some forward,
                      cashflow = direction * cf, discount_factor_col = discount,
                      present_value = direction * cf * discount, time_to_payment = t_end,
                      leg = ''floating'', projection_rate = forward\<rparr>
           in case floating_rows pricer swap schedule of
                Inl err \<Rightarrow> Inl err
              | Inr rows \<Rightarrow> Inr (row # rows)))))"

definition build_floating_cashflows :: "SwapPricer \<Rightarrow> SwapDefinition \<Rightarrow> error + cashflow_row list" where
  "build_floating_cashflows pricer swap =
     (case generate_schedule (effective_date swap) (maturity_years swap)
             (floating_leg_frequency swap) (floating_leg_daycount swap) of
        Inl err \<Rightarrow> Inl err
      | Inr schedule \<Rightarrow> floating_rows pricer swap schedule)"

definition build_cashflows :: "SwapPricer \<Rightarrow> SwapDefinition \<Rightarrow> error + cashflow_row list" where
  "build_cashflows pricer swap =
     (case build_fixed_cashflows pricer swap of
        Inl err \<Rightarrow> Inl err
      | Inr fixed_leg \<Rightarrow>
          (case build_floating_cashflows pricer swap of
             Inl err \<Rightarrow> Inl err
           | Inr float_leg \<Rightarrow> Inr (fixed_leg @ float_leg)))"

record pricing_result =
  cashflows :: "cashflow_row list"
  fixed_leg_pv :: real
  floating_leg_pv :: real
  npv :: real

text \<open>
  A schedule is empty when the period count rounds to a negative number; two empty legs
  concatenate to a table without columns, and selecting the column \<open>leg\<close> raises. The rows
  of the returned table are sorted by \<open>period_end\<close>; rows that end on the same day, as a fixed
  and a floating row do, stand here in the order of the concatenated legs, while pandas leaves
  the order of such ties open. Nothing below depends on the order of the rows.
\<close>

definition price :: "SwapPricer \<Rightarrow> SwapDefinition \<Rightarrow> error + pricing_result" where
  "price pricer swap =
     (case build_cashflows pricer swap of
        Inl err \<Rightarrow> Inl err
      | Inr cfs \<Rightarrow>
          if cfs = [] then Inl (KeyError ''leg'')
          else let fixed_pv = sum_list (map present_value (filter (\<lambda>r. leg r = ''fixed'') cfs));
                   float_pv = sum_list (map present_value (filter (\<lambda>r. leg r = ''floating'') cfs));
                   total = fixed_pv + float_pv
               in Inr \<lparr>cashflows = sort_key (\<lambda>r. date_key (period_end r)) cfs,
                       fixed_leg_pv = fixed_pv, floating_leg_pv = float_pv, npv = total\<rparr>)"

section \<open>pricing_engine.py\<close>

definition bump_curve :: "ZeroCurve \<Rightarrow> real \<Rightarrow> error + ZeroCurve" where
  "bump_curve curve bump_bp =
     (let bump = bump_bp / 10000;
          ts = tenors curve;
          base_dfs = map (discount_factor curve) ts;
          bumped_dfs = map2 (\<lambda>d t. d * exp (- bump * t)) base_dfs ts;
          bumped_rates = map2 (\<lambda>d t. - ln d / t) bumped_dfs ts;
          points = map2 (\<lambda>t r. \<lparr>tenor = t, rate = r\<rparr>) ts bumped_rates
      in ZeroCurve_init points (Bumped (name curve) bump_bp) (Some bumped_dfs))"

text \<open>
  The inner loop of \<open>apply_non_parallel_shift\<close> over consecutive sorted keys; when no pair
  brackets the tenor the entry keeps the zero of \<open>zeros_like\<close>.
\<close>

fun bracket_shift :: "(real, real) fmap \<Rightarrow> real \<Rightarrow> real list \<Rightarrow> real" where
  "bracket_shift tenor_shifts t (t1 # t2 # rest) =
     (if t1 \<le> t \<and> t \<le> t2
      then let shift1 = the (fmlookup tenor_shifts t1) / 10000;
               shift2 = the (fmlookup tenor_shifts t2) / 10000;
               alpha = (if t2 \<noteq> t1 then (t - t1) / (t2 - t1) else 0)
           in shift1 + alpha * (shift2 - shift1)
      else bracket_shift tenor_shifts t (t2 # rest))"
| "bracket_shift tenor_shifts t rest = 0"

definition node_shift :: "(real, real) fmap \<Rightarrow> real \<Rightarrow> error + real" where
  "node_shift tenor_shifts t =
     (case fmlookup tenor_shifts t of
        Some s \<Rightarrow> Inr (s / 10000)
      | None \<Rightarrow>
          (let sorted_tenors = sorted_list_of_fset (fmdom tenor_shifts)
           in case sorted_tenors of
                [] \<Rightarrow> Inl IndexError
              | t0 # _ \<Rightarrow>
                  if t < t0 then Inr (the (fmlookup tenor_shifts t0) / 10000)
                  else if last sorted_tenors < t
                  then Inr (the (fmlookup tenor_shifts (last sorted_tenors)) / 10000)
                  else Inr (bracket_shift tenor_shifts t sorted_tenors)))"

fun node_shifts :: "(real, real) fmap \<Rightarrow> real list \<Rightarrow> error + real list" where
  "node_shifts tenor_shifts [] = Inr []"
| "node_shifts tenor_shifts (t # ts) =
     (case node_shift tenor_shifts t of
        Inl err \<Rightarrow> Inl err
      | Inr s \<Rightarrow>
          (case node_shifts tenor_shifts ts of
             Inl err \<Rightarrow> Inl err
           | Inr ss \<Rightarrow> Inr (s # ss)))"

definition apply_non_parallel_shift :: "ZeroCurve \<Rightarrow> (real, real) fmap \<Rightarrow> error + ZeroCurve" where
  "apply_non_parallel_shift curve tenor_shifts =
     (let ts = tenors curve; base_rates = zero_rates curve
      in case node_shifts tenor_shifts ts of
           Inl err \<Rightarrow> Inl err
         | Inr shifts \<Rightarrow>
             (let bumped_rates = map2 (+) base_rates shifts;
                  bumped_dfs = map2 (\<lambda>r t. exp (- r * t)) bumped_rates ts;
                  points = map2 (\<lambda>t r. \<lparr>tenor = t, rate = r\<rparr>) ts bumped_rates
              in ZeroCurve_init points (NonParallel (name curve)) (Some bumped_dfs)))"

definition default_width :: "real \<Rightarrow> real" where
  "default_width key_tenor = (if key_tenor < 1 then 1 else if key_tenor \<le> 5 then 2 else 3)"

definition tent_shift :: "real \<Rightarrow> real \<Rightarrow> real \<Rightarrow> real \<Rightarrow> real" where
  "tent_shift key_tenor shift_decimal width t =
     (let distance = \<bar>t - key_tenor\<bar>
      in if distance \<le> width then shift_decimal * (1 - distance / width) else 0)"

definition apply_key_rate_shift ::
  "ZeroCurve \<Rightarrow> real \<Rightarrow> real \<Rightarrow> real option \<Rightarrow> error + ZeroCurve" where
  "apply_key_rate_shift curve key_tenor shift_bp width =
     (let ts = tenors curve; base_rates = zero_rates curve;
          shift_decimal = shift_bp / 10000;
          w = (case width of None \<Rightarrow> default_width key_tenor | Some v \<Rightarrow> v);
          shifts = map (tent_shift key_tenor shift_decimal w) ts;
          bumped_rates = map2 (+) base_rates shifts;
          bumped_dfs = map2 (\<lambda>r t. exp (- r * t)) bumped_rates ts;
          points = map2 (\<lambda>t r. \<lparr>tenor = t, rate = r\<rparr>) ts bumped_rates
      in ZeroCurve_init points (KeyRate (name curve) key_tenor) (Some bumped_dfs))"

fun key_rate_loop ::
  "SwapDefinition \<Rightarrow> ZeroCurve \<Rightarrow> ZeroCurve \<Rightarrow> real \<Rightarrow> real \<Rightarrow> real list \<Rightarrow> (real, real) fmap
     \<Rightarrow> error + (real, real) fmap" where
  "key_rate_loop swap dc fc bump_bp base_npv [] key_rate_dv01 = Inr key_rate_dv01"
| "key_rate_loop swap dc fc bump_bp base_npv (key_tenor # key_tenors) key_rate_dv01 =
     (case apply_key_rate_shift dc key_tenor bump_bp None of
        Inl err \<Rightarrow> Inl err
      | Inr shifted_discount \<Rightarrow>
     (case apply_key_rate_shift fc key_tenor bump_bp None of
        Inl err \<Rightarrow> Inl err
      | Inr shifted_forward \<Rightarrow>
     (case price \<lparr>discount_curve = shifted_discount, forward_curve = shifted_forward\<rparr> swap of
        Inl err \<Rightarrow> Inl err
      | Inr shifted_pricing \<Rightarrow>
          key_rate_loop swap dc fc bump_bp base_npv key_tenors
            (fmupd key_tenor (npv shifted_pricing - base_npv) key_rate_dv01))))"

definition calculate_key_rate_dv01 ::
  "SwapDefinition \<Rightarrow> ZeroCurve \<Rightarrow> ZeroCurve \<Rightarrow> real list \<Rightarrow> real \<Rightarrow> error + (real, real) fmap" where
  "calculate_key_rate_dv01 swap dc fc key_tenors bump_bp =
     (case price \<lparr>discount_curve = dc, forward_curve = fc\<rparr> swap of
        Inl err \<Rightarrow> Inl err
      | Inr base_pricing \<Rightarrow>
          key_rate_loop swap dc fc bump_bp (npv base_pricing) key_tenors fmempty)"

record risk_result =
  pricing :: pricing_result
  risk_npv :: real
  pv01 :: real
  dv01 :: real
  risk_cashflows :: "cashflow_row list"

definition price_with_risk ::
  "SwapDefinition \<Rightarrow> ZeroCurve \<Rightarrow> ZeroCurve \<Rightarrow> real \<Rightarrow> error + risk_result" where
  "price_with_risk swap dc fc bump_bp =
     (case price \<lparr>discount_curve = dc, forward_curve = fc\<rparr> swap of
        Inl err \<Rightarrow> Inl err
      | Inr pr \<Rightarrow>
     (case bump_curve dc bump_bp of
        Inl err \<Rightarrow> Inl err
      | Inr bumped_discount \<Rightarrow>
     (case bump_curve fc bump_bp of
        Inl err \<Rightarrow> Inl err
      | Inr bumped_forward \<Rightarrow>
     (case price \<lparr>discount_curve = bumped_discount, forward_curve = bumped_forward\<rparr> swap of
        Inl err \<Rightarrow> Inl err
      | Inr bumped_pricing \<Rightarrow>
          (let p = npv bumped_pricing - npv pr; d = p
           in Inr \<lparr>pricing = pr, risk_npv = npv pr, pv01 = p, dv01 = d,
                   risk_cashflows = cashflows pr\<rparr>)))))"

section \<open>Example inputs\<close>

text \<open>
  A one-year swap with one period on each leg, a one-node curve at 5%, and the cashflow table
  and valuation that \<open>price\<close> returns for them.
\<close>

definition swap0 :: SwapDefinition where
  "swap0 = \<lparr>valuation_date = \<lparr>year = 2025, month = 1, day = 1\<rparr>,
            effective_date = \<lparr>year = 2025, month = 1, day = 1\<rparr>,
            maturity_years = 1, notional = 100, fixed_rate = 1 / 20, payer = ''fixed'',
            fixed_leg_frequency = 1, floating_leg_frequency = 1,
            fixed_leg_daycount = ''30/360'', floating_leg_daycount = ''ACT/365'', spread = 0\<rparr>"

definition c0 :: ZeroCurve where
  "c0 = \<lparr>tenors = [1], zero_rates = [1 / 20], name = Plain ''c'', discount_factors = None\<rparr>"

definition fixed_row0 :: cashflow_row where
  "fixed_row0 = \<lparr>period_start = \<lparr>year = 2025, month = 1, day = 1\<rparr>,
              period_end = \<lparr>year = 2026, month = 1, day = 1\<rparr>,
              accrual_factor_col = 1, coupon_rate = 1 / 20, forward_rate_col = None,
              cashflow = - 5, discount_factor_col = exp (- (1 / 20)),
              present_value = - (5 * exp (- (1 / 20))), time_to_payment = 1,
              leg = ''fixed'', projection_rate = 1 / 20\<rparr>"

definition floating_row0 :: cashflow_row where
  "floating_row0 = \<lparr>period_start = \<lparr>year = 2025, month = 1, day = 1\<rparr>,
              period_end = \<lparr>year = 2026, month = 1, day = 1\<rparr>,
              accrual_factor_col = 1, coupon_rate = 1 / 20, forward_rate_col = Some (1 / 20),
              cashflow = 5, discount_factor_col = exp (- (1 / 20)),
              present_value = 5 * exp (- (1 / 20)), time_to_payment = 1,
              leg = ''floating'', projection_rate = 1 / 20\<rparr>"

definition pricing0 :: pricing_result where
  "pricing0 = \<lparr>cashflows = [fixed_row0, floating_row0],
          fixed_leg_pv = - (5 * exp (- (1 / 20))), floating_leg_pv = 5 * exp (- (1 / 20)),
          npv = 0\<rparr>"

text \<open>
  A curve with a repeated tenor and a zero in the discount-factor cache at the second copy,
  which the constructor accepts.
\<close>

definition c1 :: ZeroCurve where
  "c1 = \<lparr>tenors = [1 / 2, 2, 2, 3], zero_rates = [1 / 20, 1 / 20, 1 / 20, 1 / 20],
         name = Plain ''d'', discount_factors = Some [9 / 10, 4 / 5, 0, 7 / 10]\<rparr>"

section \<open>Facts about sorting\<close>

lemma map_insort_key: "map f (insort_key f x xs) = insort (f x) (map f xs)"
  by (induction xs) simp_all

lemma map_sort_key: "map f (sort_key f xs) = sort (map f xs)"
  by (induction xs) (simp_all add: map_insort_key)

lemma hd_sorted_Min: "xs \<noteq> [] \<Longrightarrow> sorted xs \<Longrightarrow> hd xs = Min (set xs)"
  by (cases xs) (auto intro!: Min_eqI [symmetric])

lemma sort_key_Nil_iff: "sort_key f xs = [] \<longleftrightarrow> xs = []"
  by (metis length_sort length_0_conv)

lemma hd_sort_key_Min:
  assumes "xs \<noteq> []"
  shows "f (hd (sort_key f xs)) = Min (f ` set xs)"
proof -
  have ne: "sort_key f xs \<noteq> []" using assms by (simp add: sort_key_Nil_iff)
  have "f (hd (sort_key f xs)) = hd (map f (sort_key f xs))"
    using ne by (simp add: hd_map)
  also have "\<dots> = hd (sort (map f xs))" by (simp add: map_sort_key)
  also have "\<dots> = Min (set (sort (map f xs)))"
    using assms by (intro hd_sorted_Min) (simp_all add: sort_key_Nil_iff)
  finally show ?thesis by simp
qed

lemma count_list_insort_key:
  "count_list (insort_key f a xs) x = count_list (a # xs) x"
  by (induction xs) auto

lemma count_list_sort_key: "count_list (sort_key f xs) x = count_list xs x"
  by (induction xs) (simp_all add: count_list_insort_key)

lemma sort_key_sort_values_by: "sort_values_by f (sort_key f)"
  by (simp add: sort_values_by_def count_list_sort_key)

lemma sort_values_by_facts:
  assumes "sort_values_by key sv"
  shows "set (sv xs) = set xs" "sorted (map key (sv xs))" "sv xs = [] \<longleftrightarrow> xs = []"
proof -
  have cnt: "count_list (sv xs) x = count_list xs x" for x
    using assms by (simp add: sort_values_by_def)
  have "x \<in> set (sv xs) \<longleftrightarrow> x \<in> set xs" for x
    using cnt [of x] count_list_0_iff [of "sv xs" x] count_list_0_iff [of xs x] by simp
  then show st: "set (sv xs) = set xs" by blast
  show "sorted (map key (sv xs))" using assms by (simp add: sort_values_by_def)
  show "sv xs = [] \<longleftrightarrow> xs = []" using st by (metis set_empty)
qed

lemma sorted_last_Max:
  fixes ys :: "'a::linorder list"
  assumes "sorted ys" "ys \<noteq> []"
  shows "last ys = Max (set ys)"
proof -
  have "y \<le> last ys" if "y \<in> set ys" for y
    using assms(1) that by (induction ys) auto
  then have "Max (set ys) = last ys"
    using assms(2) by (intro Max_eqI) simp_all
  then show ?thesis by simp
qed

lemma sort_values_last_Max:
  assumes "sort_values_by key sv" "xs \<noteq> []"
  shows "last (map key (sv xs)) = Max (key ` set xs)"
proof -
  note f = sort_values_by_facts [OF assms(1), of xs]
  have "map key (sv xs) \<noteq> []" using f(3) assms(2) by simp
  then have "last (map key (sv xs)) = Max (set (map key (sv xs)))"
    using f(2) by (intro sorted_last_Max)
  then show ?thesis using f(1) by simp
qed

section \<open>Construction of a curve\<close>

lemma ZeroCurve_init_unfold:
  "ZeroCurve_init points nm dfs =
     (if points = [] then Inl IndexError
      else if Min (tenor ` set points) \<le> 0 then Inl (ValueError ''Tenors must be positive'')
      else if (case dfs of None \<Rightarrow> False | Some ds \<Rightarrow> length ds \<noteq> length points)
      then Inl (ValueError ''Discount factors must align with tenor points'')
      else Inr \<lparr>tenors = sort (map tenor points),
                zero_rates = map rate (sort_key tenor points),
                name = nm, discount_factors = dfs\<rparr>)"
proof (cases "points = []")
  case True
  then show ?thesis by (simp add: ZeroCurve_init_def)
next
  case False
  then obtain p ps where sp: "sort_key tenor points = p # ps"
    by (cases "sort_key tenor points") (simp_all add: sort_key_Nil_iff)
  have "tenor p = Min (tenor ` set points)"
    using hd_sort_key_Min [OF False, of tenor] sp by simp
  moreover have "length (p # ps) = length points"
    using sp by (metis length_sort)
  ultimately show ?thesis
    using False sp map_sort_key [of tenor points]
    by (auto simp: ZeroCurve_init_def split: option.splits)
qed

lemma ZeroCurve_init_constructed:
  assumes "ZeroCurve_init points nm dfs = Inr c"
  shows "constructed c"
proof -
  have ne: "points \<noteq> []" and pos: "\<not> Min (tenor ` set points) \<le> 0"
    and len: "\<not> (case dfs of None \<Rightarrow> False | Some ds \<Rightarrow> length ds \<noteq> length points)"
    and c: "c = \<lparr>tenors = sort (map tenor points),
                zero_rates = map rate (sort_key tenor points),
                name = nm, discount_factors = dfs\<rparr>"
    using assms unfolding ZeroCurve_init_unfold by (auto split: if_splits)
  have ne2: "sort (map tenor points) \<noteq> []"
    using ne by (simp add: sort_key_Nil_iff)
  have "hd (sort (map tenor points)) = Min (tenor ` set points)"
    using ne2 by (subst hd_sorted_Min) simp_all
  then have hd_pos: "0 < hd (tenors c)"
    using pos c by simp
  have "tenors c \<noteq> []" "sorted (tenors c)" "length (zero_rates c) = length (tenors c)"
    using ne2 c by simp_all
  moreover have "case discount_factors c of None \<Rightarrow> True | Some ds \<Rightarrow> length ds = length (tenors c)"
    using len c by (simp split: option.splits)
  ultimately show ?thesis
    using hd_pos unfolding constructed_def by blast
qed

text \<open>
  The constructor on every input. It fails on an empty point list (the read of the first
  sorted point raises \<open>IndexError\<close>), on a smallest tenor that is not positive and on a
  discount-factor list of another length than the point list (both checks raise
  \<open>ValueError\<close>). In every other case the whole curve is returned: the tenors sorted, the
  rates in the order of the sorted points, the name and the discount factors as passed; and
  whatever the constructor returns satisfies the invariant \<open>constructed\<close>, which does not
  exclude two nodes of the same tenor.
\<close>

lemma ZeroCurve_init_cases:
  "ZeroCurve_init points nm dfs =
     (if points = [] then Inl IndexError
      else if Min (tenor ` set points) \<le> 0 then Inl (ValueError ''Tenors must be positive'')
      else if (case dfs of None \<Rightarrow> False | Some ds \<Rightarrow> length ds \<noteq> length points)
      then Inl (ValueError ''Discount factors must align with tenor points'')
      else Inr \<lparr>tenors = sort (map tenor points),
                zero_rates = map rate (sort_key tenor points),
                name = nm, discount_factors = dfs\<rparr>)
   \<and> (\<forall>c. ZeroCurve_init points nm dfs = Inr c \<longrightarrow> constructed c)"
  using ZeroCurve_init_unfold ZeroCurve_init_constructed by blast

lemma ZeroCurve_init_cases_example:
  "ZeroCurve_init [\<lparr>tenor = 2, rate = 1 / 50\<rparr>, \<lparr>tenor = 1, rate = 1 / 100\<rparr>] (Plain ''c'')
       (Some [1, 1]) =
     Inr \<lparr>tenors = [1, 2], zero_rates = [1 / 100, 1 / 50], name = Plain ''c'',
          discount_factors = Some [1, 1]\<rparr>
   \<and> constructed \<lparr>tenors = [1, 2], zero_rates = [1 / 100, 1 / 50], name = Plain ''c'',
          discount_factors = Some [1, 1]\<rparr>"
  using ZeroCurve_init_cases
    [of "[\<lparr>tenor = 2, rate = 1 / 50\<rparr>, \<lparr>tenor = 1, rate = 1 / 100\<rparr>]" "Plain ''c''" "Some [1, 1]"]
  by simp

text \<open>
  C8. The claim has the constructor reject an empty point list as an invalid curve, like a
  non-positive smallest tenor or a misaligned discount-factor list, which both raise
  \<open>ValueError\<close>. The code misses that guard: it reads the first sorted point of the empty
  list, so the failure there is an \<open>IndexError\<close> and not the validation error.
\<close>

theorem ZeroCurve_init_empty_IndexError:
  "ZeroCurve_init [] (Plain ''c'') None = Inl IndexError
   \<and> ZeroCurve_init [] (Plain ''c'') None \<noteq> Inl (ValueError ''Tenors must be positive'')"
  by (simp add: ZeroCurve_init_def)

section \<open>Forward rates\<close>

lemma interp_scan_log_None:
  "interp_scan_log x ps = None \<Longrightarrow> ps \<noteq> [] \<Longrightarrow> None \<in> snd ` set ps"
proof (induction x ps rule: interp_scan_log.induct)
  case (1 x)
  then show ?case by simp
next
  case (2 x a b)
  then show ?case by simp
next
  case (3 x a b c d ps)
  show ?case
  proof (cases "c \<le> x")
    case True
    then have "interp_scan_log x ((c, d) # ps) = None" using "3.prems"(1) by simp
    then have "None \<in> snd ` set ((c, d) # ps)" using "3.IH" [OF True] by simp
    then show ?thesis by auto
  next
    case False
    then have "b = None \<or> d = None"
      using "3.prems"(1) by (auto split: if_splits option.splits)
    then show ?thesis by force
  qed
qed

lemma np_interp_log_None:
  assumes "np_interp_log x xp fp = None" "xp \<noteq> []" "length fp = length xp"
  shows "None \<in> set fp"
proof -
  have ne: "zip xp fp \<noteq> []" using assms(2,3) by (cases xp; cases fp) simp_all
  have sub: "snd ` set (zip xp fp) \<subseteq> set fp" by (auto dest: set_zip_rightD)
  have h: "snd (hd (zip xp fp)) \<in> snd ` set (zip xp fp)"
    and l: "snd (last (zip xp fp)) \<in> snd ` set (zip xp fp)"
    using ne by simp_all
  from assms(1) ne have "snd (hd (zip xp fp)) = None \<or> snd (last (zip xp fp)) = None
      \<or> interp_scan_log x (zip xp fp) = None"
    by (auto simp: np_interp_log_def Let_def split: if_splits)
  then have "None \<in> snd ` set (zip xp fp)"
  proof (elim disjE)
    assume "snd (hd (zip xp fp)) = None"
    then show ?thesis using h by simp
  next
    assume "snd (last (zip xp fp)) = None"
    then show ?thesis using l by simp
  next
    assume "interp_scan_log x (zip xp fp) = None"
    then show ?thesis using ne by (rule interp_scan_log_None)
  qed
  then show ?thesis using sub by blast
qed

lemma interp_scan_log_Some:
  "ps \<noteq> [] \<Longrightarrow>
     interp_scan_log x (map (\<lambda>p. (fst p, Some (snd p))) ps) = Some (interp_scan x ps)"
  by (induction x ps rule: interp_scan.induct) simp_all

lemma np_interp_log_Some:
  assumes "xp \<noteq> []" "length fp = length xp"
  shows "np_interp_log x xp (map Some fp) = Some (np_interp x xp fp)"
proof -
  have zz: "zip xp (map Some fp) = map (\<lambda>p. (fst p, Some (snd p))) (zip xp fp)"
    by (simp add: zip_map2 case_prod_beta)
  have ne: "zip xp fp \<noteq> []" using assms by (cases xp; cases fp) simp_all
  show ?thesis
    unfolding np_interp_log_def np_interp_def zz Let_def
    using ne by (simp add: interp_scan_log_Some hd_map last_map)
qed

lemma log_df_nonzero:
  "0 \<notin> set ds \<Longrightarrow> map log_df ds = map Some (map ln ds)"
  by (induction ds) (simp_all add: log_df_def)

text \<open>The discount factor vanishes only on a curve whose cache holds a zero.\<close>

lemma discount_factor_zero_cache:
  assumes "constructed c" "discount_factor c t = 0"
  shows "\<exists>ds. discount_factors c = Some ds \<and> 0 \<in> set ds \<and> hd (tenors c) < t"
proof -
  from assms(2) obtain ds where ds: "discount_factors c = Some ds"
    by (cases "discount_factors c") (auto simp: discount_factor_def split: if_splits)
  have ne: "tenors c \<noteq> []" and len: "length ds = length (tenors c)"
    using assms(1) ds by (simp_all add: constructed_def)
  have t: "0 < t" "hd (tenors c) < t"
    using assms(2) ds by (auto simp: discount_factor_def split: if_splits)
  have "0 \<in> set ds"
  proof (cases "last (tenors c) \<le> t")
    case True
    then have "last ds = 0" using assms(2) ds t by (simp add: discount_factor_def)
    moreover have "ds \<noteq> []" using ne len by auto
    ultimately show ?thesis by (metis last_in_set)
  next
    case False
    then have "np_interp_log t (tenors c) (map log_df ds) = None"
      using assms(2) ds t by (simp add: discount_factor_def exp_log_def split: option.splits)
    then have "None \<in> set (map log_df ds)"
      using ne len by (intro np_interp_log_None [of t "tenors c"]) simp_all
    then show ?thesis by (auto simp: log_df_def split: if_splits)
  qed
  then show ?thesis using ds t by simp
qed

lemma discount_factor_nonzero:
  assumes "constructed c"
    "case discount_factors c of None \<Rightarrow> True | Some ds \<Rightarrow> 0 \<notin> set ds"
  shows "discount_factor c t \<noteq> 0"
  using discount_factor_zero_cache [OF assms(1), of t] assms(2) by auto

text \<open>
  C5, as \<open>forward_rate\<close> has it. The range error (the \<open>ValueError\<close> of the source) is raised
  exactly when \<open>end \<le> start\<close>. When \<open>end > start\<close> the result is
  \<open>ln (DF start / DF end) / (end - start)\<close>, except where \<open>DF end\<close> is zero: there the Python
  float division raises \<open>ZeroDivisionError\<close>. On a constructed curve \<open>DF end\<close> is zero only
  if the cache of discount factors holds a zero and \<open>end\<close> lies beyond the first tenor; so on a
  curve without a cache, or with a cache free of zeros, \<open>forward_rate\<close> returns the rate for
  every \<open>end > start\<close>.
\<close>

theorem forward_rate_cases:
  "forward_rate c s e =
     (if e \<le> s then Inl (ValueError ''End tenor must be greater than start tenor'')
      else if discount_factor c e = 0 then Inl ZeroDivisionError
      else Inr (ln (discount_factor c s / discount_factor c e) / (e - s)))
   \<and> (forward_rate c s e = Inl (ValueError ''End tenor must be greater than start tenor'')
        \<longleftrightarrow> e \<le> s)
   \<and> (constructed c \<and> discount_factor c e = 0 \<longrightarrow>
        (\<exists>ds. discount_factors c = Some ds \<and> 0 \<in> set ds \<and> hd (tenors c) < e))"
proof (intro conjI impI)
  show "forward_rate c s e =
     (if e \<le> s then Inl (ValueError ''End tenor must be greater than start tenor'')
      else if discount_factor c e = 0 then Inl ZeroDivisionError
      else Inr (ln (discount_factor c s / discount_factor c e) / (e - s)))"
    by (simp add: forward_rate_def Let_def)
  show "forward_rate c s e = Inl (ValueError ''End tenor must be greater than start tenor'')
        \<longleftrightarrow> e \<le> s"
    by (simp add: forward_rate_def Let_def)
next
  assume "constructed c \<and> discount_factor c e = 0"
  then show "\<exists>ds. discount_factors c = Some ds \<and> 0 \<in> set ds \<and> hd (tenors c) < e"
    by (elim conjE) (rule discount_factor_zero_cache)
qed

theorem forward_rate_cases_witness:
  "forward_rate \<lparr>tenors = [1, 2], zero_rates = [0, 0], name = Plain ''c'',
                 discount_factors = None\<rparr> 1 2 = Inr 0
   \<and> forward_rate \<lparr>tenors = [1, 2], zero_rates = [0, 0], name = Plain ''c'',
                 discount_factors = None\<rparr> 2 2
       = Inl (ValueError ''End tenor must be greater than start tenor'')
   \<and> forward_rate \<lparr>tenors = [1, 2], zero_rates = [0, 0], name = Plain ''c'',
                 discount_factors = None\<rparr> 3 1
       = Inl (ValueError ''End tenor must be greater than start tenor'')
   \<and> constructed \<lparr>tenors = [1, 2, 3], zero_rates = [0, 0, 0], name = Plain ''c'',
                 discount_factors = Some [9 / 10, 0, 4 / 5]\<rparr>
   \<and> discount_factor \<lparr>tenors = [1, 2, 3], zero_rates = [0, 0, 0], name = Plain ''c'',
                 discount_factors = Some [9 / 10, 0, 4 / 5]\<rparr> 2 = 0
   \<and> forward_rate \<lparr>tenors = [1, 2, 3], zero_rates = [0, 0, 0], name = Plain ''c'',
                 discount_factors = Some [9 / 10, 0, 4 / 5]\<rparr> 1 2 = Inl ZeroDivisionError
   \<and> (0::real) \<in> set [9 / 10, 0, 4 / 5]"
  using forward_rate_cases [of "\<lparr>tenors = [1, 2], zero_rates = [0, 0], name = Plain ''c'',
                 discount_factors = None\<rparr>" 1 2]
    forward_rate_cases [of "\<lparr>tenors = [1, 2], zero_rates = [0, 0], name = Plain ''c'',
                 discount_factors = None\<rparr>" 2 2]
    forward_rate_cases [of "\<lparr>tenors = [1, 2], zero_rates = [0, 0], name = Plain ''c'',
                 discount_factors = None\<rparr>" 3 1]
    forward_rate_cases [of "\<lparr>tenors = [1, 2, 3], zero_rates = [0, 0, 0], name = Plain ''c'',
                 discount_factors = Some [9 / 10, 0, 4 / 5]\<rparr>" 1 2]
  by (simp add: discount_factor_def zero_rate_def np_interp_def np_interp_log_def log_df_def
      exp_log_def constructed_def)

text \<open>
  C5 as stated does not hold: the constructor accepts a cache that ends in a zero discount
  factor, and on that curve \<open>forward_rate 1 2\<close>, with \<open>end > start\<close>, raises instead of
  returning a rate.
\<close>

theorem forward_rate_zero_cache_raises:
  "ZeroCurve_init [\<lparr>tenor = 1, rate = 1 / 20\<rparr>] (Plain ''c'') (Some [0]) =
     Inr \<lparr>tenors = [1], zero_rates = [1 / 20], name = Plain ''c'', discount_factors = Some [0]\<rparr>
   \<and> forward_rate \<lparr>tenors = [1], zero_rates = [1 / 20], name = Plain ''c'',
                   discount_factors = Some [0]\<rparr> 1 2 = Inl ZeroDivisionError"
  by (simp add: ZeroCurve_init_def forward_rate_def discount_factor_def)

section \<open>Non-parallel shift with an empty shift map\<close>

lemma sorted_list_of_fset_empty: "sorted_list_of_fset {||} = []"
  by (simp add: sorted_list_of_fset.rep_eq)

lemma node_shift_empty: "node_shift fmempty t = Inl IndexError"
  by (simp add: node_shift_def sorted_list_of_fset_empty)

lemma node_shifts_empty: "ts \<noteq> [] \<Longrightarrow> node_shifts fmempty ts = Inl IndexError"
  by (cases ts) (simp_all add: node_shift_empty)

text \<open>
  C10. A constructed curve has at least one node, and no node tenor is a key of the empty
  shift map; so \<open>apply_non_parallel_shift\<close> reads the first element of the empty list of sorted
  keys at the first node and fails with \<open>IndexError\<close>: it returns no curve.
\<close>

theorem apply_non_parallel_shift_empty_map:
  "constructed c \<Longrightarrow> apply_non_parallel_shift c fmempty = Inl IndexError"
  by (simp add: apply_non_parallel_shift_def constructed_def node_shifts_empty)

theorem apply_non_parallel_shift_empty_map_witness:
  "constructed \<lparr>tenors = [1, 2], zero_rates = [1 / 100, 1 / 50], name = Plain ''c'',
                discount_factors = None\<rparr>
   \<and> apply_non_parallel_shift \<lparr>tenors = [1, 2], zero_rates = [1 / 100, 1 / 50],
         name = Plain ''c'', discount_factors = None\<rparr> fmempty = Inl IndexError"
proof -
  have h: "constructed \<lparr>tenors = [1, 2], zero_rates = [1 / 100, 1 / 50], name = Plain ''c'',
                discount_factors = None\<rparr>"
    by (simp add: constructed_def)
  show ?thesis using h apply_non_parallel_shift_empty_map [OF h] by simp
qed

section \<open>The bootstrap\<close>

lemma bootstrap_loop_length:
  "length (bootstrap_loop pt pr acc dfs todo) = length dfs + length todo"
  by (induction pt pr acc dfs todo rule: bootstrap_loop.induct) (simp_all add: Let_def)

lemma bootstrap_loop_take:
  "take (length dfs) (bootstrap_loop pt pr acc dfs todo) = dfs"
proof (induction pt pr acc dfs todo rule: bootstrap_loop.induct)
  case (1 pt pr acc dfs)
  then show ?case by simp
next
  case (2 pt pr acc dfs t a todo)
  define x where "x = (if length dfs = 0 then 1 / (1 + np_interp t pt pr * a)
      else (1 - np_interp t pt pr * sum_list (map2 (*) (take (length dfs) acc) (take (length dfs) dfs)))
             / (1 + np_interp t pt pr * a))"
  have res: "bootstrap_loop pt pr acc dfs ((t, a) # todo) = bootstrap_loop pt pr acc (dfs @ [x]) todo"
    by (simp add: x_def Let_def)
  have ih: "take (length (dfs @ [x])) (bootstrap_loop pt pr acc (dfs @ [x]) todo) = dfs @ [x]"
    using 2 by (cases "length dfs = 0") (simp_all add: x_def Let_def)
  have "take (length dfs) (bootstrap_loop pt pr acc (dfs @ [x]) todo)
      = take (length dfs) (take (length (dfs @ [x])) (bootstrap_loop pt pr acc (dfs @ [x]) todo))"
    by (simp add: min_def)
  also have "\<dots> = dfs" unfolding ih by simp
  finally show ?case unfolding res .
qed

lemma bootstrap_loop_nth:
  assumes "k < length todo"
  shows "bootstrap_loop pt pr acc dfs todo ! (length dfs + k) =
     (let i = length dfs + k; r = np_interp (fst (todo ! k)) pt pr; a = snd (todo ! k);
          res = bootstrap_loop pt pr acc dfs todo
      in if i = 0 then 1 / (1 + r * a)
         else (1 - r * sum_list (map2 (*) (take i acc) (take i res))) / (1 + r * a))"
  using assms
proof (induction pt pr acc dfs todo arbitrary: k rule: bootstrap_loop.induct)
  case (1 pt pr acc dfs)
  then show ?case by simp
next
  case (2 pt pr acc dfs t a todo)
  define x where "x = (if length dfs = 0 then 1 / (1 + np_interp t pt pr * a)
      else (1 - np_interp t pt pr * sum_list (map2 (*) (take (length dfs) acc) (take (length dfs) dfs)))
             / (1 + np_interp t pt pr * a))"
  define res where "res = bootstrap_loop pt pr acc (dfs @ [x]) todo"
  have res: "bootstrap_loop pt pr acc dfs ((t, a) # todo) = res"
    by (simp add: x_def res_def Let_def)
  have tk: "take (Suc (length dfs)) res = dfs @ [x]"
    using bootstrap_loop_take [of "dfs @ [x]" pt pr acc todo] by (simp add: res_def)
  have tk0: "take (length dfs) res = dfs"
    unfolding res [symmetric] by (rule bootstrap_loop_take)
  show ?case
  proof (cases k)
    case 0
    have "res ! length dfs = (take (Suc (length dfs)) res) ! length dfs" by simp
    also have "\<dots> = x" unfolding tk by simp
    finally show ?thesis
      unfolding res using 0 by (simp add: x_def Let_def tk0)
  next
    case (Suc k')
    then have k': "k' < length todo" using 2(3) by simp
    have ih: "res ! (length (dfs @ [x]) + k') =
      (let i = length (dfs @ [x]) + k'; r = np_interp (fst (todo ! k')) pt pr; a = snd (todo ! k')
       in if i = 0 then 1 / (1 + r * a)
          else (1 - r * sum_list (map2 (*) (take i acc) (take i res))) / (1 + r * a))"
    proof (cases "length dfs = 0")
      case True
      show ?thesis using "2.IH"(1) [OF refl refl True k'] True
        by (simp add: x_def res_def Let_def)
    next
      case False
      show ?thesis using "2.IH"(2) [OF refl refl False refl refl refl k'] False
        by (simp add: x_def res_def Let_def)
    qed
    show ?thesis unfolding res using ih Suc by (simp add: Let_def)
  qed
qed


lemma sum_list_map2_take:
  fixes xs ys :: "real list"
  assumes "i \<le> length xs" "i \<le> length ys"
  shows "sum_list (map2 (*) (take i xs) (take i ys)) = (\<Sum>j<i. xs ! j * ys ! j)"
proof -
  have len: "length (map2 (*) (take i xs) (take i ys)) = i"
    using assms by simp
  have "sum_list (map2 (*) (take i xs) (take i ys))
      = (\<Sum>j = 0..<i. map2 (*) (take i xs) (take i ys) ! j)"
    using sum_list_sum_nth [of "map2 (*) (take i xs) (take i ys)"] len by simp
  also have "\<dots> = (\<Sum>j = 0..<i. xs ! j * ys ! j)"
    using assms by (intro sum.cong) simp_all
  finally show ?thesis by (simp add: atLeast0LessThan)
qed

lemma sorted_le_last: "sorted xs \<Longrightarrow> y \<in> set xs \<Longrightarrow> y \<le> last xs"
  by (induction xs) auto

lemma last_sort_Max:
  assumes "xs \<noteq> []"
  shows "last (sort xs) = Max (set xs)"
proof -
  have ne: "sort xs \<noteq> []" using assms by (simp add: sort_key_Nil_iff)
  have "last (sort xs) \<in> set (sort xs)" using ne by (rule last_in_set)
  then have "Max (set (sort xs)) = last (sort xs)"
    using sorted_le_last [of "sort xs"] by (intro Max_eqI) simp_all
  then show ?thesis by simp
qed

lemma grid_sorted:
  assumes "0 < F"
  shows "sorted (map (\<lambda>i. real i / F) [1 ..< Suc N])"
proof -
  have "sorted_wrt (\<lambda>i j. real i / F \<le> real j / F) [1 ..< Suc N]"
  proof (rule sorted_wrt_mono_rel [OF _ sorted_wrt_upt])
    fix x y :: nat
    assume "x < y"
    then show "real x / F \<le> real y / F"
      using assms by (simp add: divide_right_mono)
  qed
  then show ?thesis by (simp only: sorted_map)
qed

lemma map_tenor_points:
  "length rs = length ts \<Longrightarrow> map tenor (map2 (\<lambda>t r. \<lparr>tenor = t, rate = r\<rparr>) ts rs) = ts"
  by (induction ts arbitrary: rs) (auto simp: length_Suc_conv)

lemma map_rate_points:
  "length rs = length ts \<Longrightarrow> map rate (map2 (\<lambda>t r. \<lparr>tenor = t, rate = r\<rparr>) ts rs) = rs"
  by (induction ts arbitrary: rs) (auto simp: length_Suc_conv)

text \<open>The constructor on points that are already sorted and positive, with an aligned cache.\<close>

lemma ZeroCurve_init_sorted:
  assumes "ts \<noteq> []" "sorted ts" "0 < hd ts" "length rs = length ts" "length ds = length ts"
  shows "ZeroCurve_init (map2 (\<lambda>t r. \<lparr>tenor = t, rate = r\<rparr>) ts rs) nm (Some ds) =
           Inr \<lparr>tenors = ts, zero_rates = rs, name = nm, discount_factors = Some ds\<rparr>"
proof -
  let ?pts = "map2 (\<lambda>t r. \<lparr>tenor = t, rate = r\<rparr>) ts rs"
  have mt: "map tenor ?pts = ts" and mr: "map rate ?pts = rs"
    using assms(4) by (rule map_tenor_points, rule map_rate_points)
  have ne: "?pts \<noteq> []" using assms(1) mt by auto
  have sk: "sort_key tenor ?pts = ?pts"
    using assms(2) mt by (intro sort_key_id_if_sorted) simp
  have st: "sort (map tenor ?pts) = ts"
    using sk mt map_sort_key [of tenor ?pts] by simp
  have "tenor ` set ?pts = set ts" using mt by (metis set_map)
  then have "Min (tenor ` set ?pts) = hd ts"
    using hd_sorted_Min [OF assms(1,2)] by simp
  then have pos: "\<not> Min (tenor ` set ?pts) \<le> 0" using assms(3) by simp
  have len: "length ds = length ?pts" using assms(4,5) by simp
  show ?thesis
    unfolding ZeroCurve_init_unfold using ne pos len st sk mr by simp
qed

lemma from_par_swap_dataframe_ok:
  fixes df :: "(real \<times> real) list" and f :: int
    and sv :: "(real \<times> real) list \<Rightarrow> (real \<times> real) list"
  defines "q \<equiv> sv df"
  defines "N \<equiv> nat (py_round (Max (fst ` set df) * of_int f))"
  defines "ts \<equiv> map (\<lambda>i. real i / of_int f) [1 ..< Suc N]"
  defines "ds \<equiv> bootstrap_loop (map fst q) (map snd q) (np_diff (0 # ts)) []
                  (zip ts (np_diff (0 # ts)))"
  assumes "df \<noteq> []" "0 < f" "1 \<le> py_round (Max (fst ` set df) * of_int f)"
    and sv: "sort_values_by fst sv"
  shows "from_par_swap_dataframe sv df nm f =
           Inr \<lparr>tenors = ts, zero_rates = map2 (\<lambda>d t. - ln d / t) ds ts, name = nm,
                discount_factors = Some ds\<rparr>"
proof -
  have q_ne: "map fst q \<noteq> []"
    using assms(5) sort_values_by_facts(3) [OF sv, of df] by (simp add: q_def)
  have lastq: "last (map fst q) = Max (fst ` set df)"
    unfolding q_def using sv assms(5) by (rule sort_values_last_Max)
  have N1: "1 \<le> N" using assms(7) by (simp add: N_def)
  have lts: "length ts = N" by (simp add: ts_def)
  have lacc: "length (np_diff (0 # ts)) = N" by (simp add: np_diff_def lts)
  have lds: "length ds = N" by (simp add: ds_def bootstrap_loop_length lts lacc)
  have ts_ne: "ts \<noteq> []" using N1 lts by auto
  have srt: "sorted ts" using assms(6) unfolding ts_def by (intro grid_sorted) simp
  have "hd ts = ts ! 0" using ts_ne by (simp add: hd_conv_nth)
  also have "\<dots> = 1 / of_int f" using N1 by (simp add: ts_def nth_map_upt del: upt_Suc)
  finally have hd_pos: "0 < hd ts" using assms(6) by simp
  have init: "ZeroCurve_init (map2 (\<lambda>t r. \<lparr>tenor = t, rate = r\<rparr>) ts (map2 (\<lambda>d t. - ln d / t) ds ts))
                nm (Some ds) =
             Inr \<lparr>tenors = ts, zero_rates = map2 (\<lambda>d t. - ln d / t) ds ts, name = nm,
                  discount_factors = Some ds\<rparr>"
    using ts_ne srt hd_pos by (intro ZeroCurve_init_sorted) (simp_all add: lds lts)
  have steps: "\<not> py_round (Max (fst ` set df) * of_int f) \<le> 0"
    using assms(7) by simp
  have nf: "\<not> f \<le> 0" using assms(6) by simp
  show ?thesis
    unfolding from_par_swap_dataframe_def Let_def if_not_P [OF nf] q_def [symmetric]
      if_not_P [OF q_ne] lastq if_not_P [OF steps] N_def [symmetric] ts_def [symmetric]
      ds_def [symmetric]
    by (rule init)
qed


lemma grid_nth: "i < N \<Longrightarrow> map (\<lambda>i. real i / F) [1 ..< Suc N] ! i = real (Suc i) / F"
  by (simp add: nth_map_upt del: upt_Suc)

lemma np_diff_grid_nth:
  assumes "i < N"
  shows "np_diff (0 # map (\<lambda>i. real i / F) [1 ..< Suc N]) ! i = real (Suc i) / F - real i / F"
proof -
  let ?ts = "map (\<lambda>i. real i / F) [1 ..< Suc N]"
  have len: "length ?ts = N" by simp
  have "np_diff (0 # ?ts) ! i = ?ts ! i - (0 # ?ts) ! i"
    using assms len unfolding np_diff_def by (simp del: upt_Suc)
  moreover have "(0 # ?ts) ! i = real i / F"
  proof (cases i)
    case 0
    then show ?thesis by simp
  next
    case (Suc j)
    then have "j < N" using assms by simp
    then show ?thesis using Suc grid_nth [of j N F] by (simp del: upt_Suc)
  qed
  ultimately show ?thesis using grid_nth [OF assms, of F] by simp
qed

lemma bootstrap_grid_nth:
  fixes F :: real and N :: nat and pt pr :: "real list"
  defines "ts \<equiv> map (\<lambda>i. real i / F) [1 ..< Suc N]"
  defines "ds \<equiv> bootstrap_loop pt pr (np_diff (0 # ts)) [] (zip ts (np_diff (0 # ts)))"
  assumes "i < N"
  shows "ds ! i =
     (if i = 0
      then 1 / (1 + np_interp (real (Suc i) / F) pt pr * (real (Suc i) / F - real i / F))
      else (1 - np_interp (real (Suc i) / F) pt pr
                  * (\<Sum>j<i. (real (Suc j) / F - real j / F) * ds ! j))
           / (1 + np_interp (real (Suc i) / F) pt pr * (real (Suc i) / F - real i / F)))"
proof -
  let ?acc = "np_diff (0 # ts)"
  have lts: "length ts = N" by (simp add: ts_def)
  have lacc: "length ?acc = N" by (simp add: np_diff_def lts)
  have lds: "length ds = N" by (simp add: ds_def bootstrap_loop_length lts lacc)
  have tsi: "ts ! i = real (Suc i) / F"
    unfolding ts_def using assms(3) by (rule grid_nth)
  have acci: "?acc ! i = real (Suc i) / F - real i / F"
    unfolding ts_def using assms(3) by (rule np_diff_grid_nth)
  have zi: "zip ts ?acc ! i = (real (Suc i) / F, real (Suc i) / F - real i / F)"
    using assms(3) lts lacc tsi acci by simp
  have "(\<Sum>j<i. ?acc ! j * ds ! j) = (\<Sum>j<i. (real (Suc j) / F - real j / F) * ds ! j)"
  proof (rule sum.cong [OF refl])
    fix j assume "j \<in> {..<i}"
    then have "j < N" using assms(3) by simp
    then have "?acc ! j = real (Suc j) / F - real j / F"
      unfolding ts_def by (rule np_diff_grid_nth)
    then show "?acc ! j * ds ! j = (real (Suc j) / F - real j / F) * ds ! j" by simp
  qed
  then have sm: "sum_list (map2 (*) (take i ?acc) (take i ds))
      = (\<Sum>j<i. (real (Suc j) / F - real j / F) * ds ! j)"
    using sum_list_map2_take [of i ?acc ds] assms(3) lacc lds by simp
  have k: "i < length (zip ts ?acc)" using assms(3) lts lacc by simp
  have "ds ! i =
     (if i = 0 then 1 / (1 + np_interp (fst (zip ts ?acc ! i)) pt pr * snd (zip ts ?acc ! i))
      else (1 - np_interp (fst (zip ts ?acc ! i)) pt pr
                  * sum_list (map2 (*) (take i ?acc) (take i ds)))
           / (1 + np_interp (fst (zip ts ?acc ! i)) pt pr * snd (zip ts ?acc ! i)))"
    using bootstrap_loop_nth [OF k, of pt pr ?acc "[]"]
    unfolding Let_def ds_def [symmetric] by simp
  then show ?thesis
    unfolding zi by (simp only: fst_conv snd_conv sm)
qed


lemma from_par_swap_dataframe_low:
  assumes "df \<noteq> []" "0 < f" "py_round (Max (fst ` set df) * of_int f) \<le> 0"
    and sv: "sort_values_by fst sv"
  shows "from_par_swap_dataframe sv df nm f =
           Inl (ValueError ''Insufficient tenor coverage for bootstrapping'')"
proof -
  have q_ne: "map fst (sv df) \<noteq> []"
    using assms(1) sort_values_by_facts(3) [OF sv, of df] by simp
  have lastq: "last (map fst (sv df)) = Max (fst ` set df)"
    using sv assms(1) by (rule sort_values_last_Max)
  have nf: "\<not> f \<le> 0" using assms(2) by simp
  show ?thesis
    unfolding from_par_swap_dataframe_def Let_def if_not_P [OF nf] if_not_P [OF q_ne] lastq
      if_P [OF assms(3)]
    by (rule refl)
qed

lemma from_par_swap_dataframe_freq:
  "f \<le> 0 \<Longrightarrow> from_par_swap_dataframe sv df nm f =
     Inl (ValueError ''Payment frequency must be positive'')"
  by (simp add: from_par_swap_dataframe_def)

lemma sorted_Cons_le_nth:
  "sorted (a # xs) \<Longrightarrow> i < length (a # xs) \<Longrightarrow> a \<le> (a # xs) ! i"
  by (cases i) auto

lemma interp_scan_last:
  assumes "sorted (map fst ps)" "ps \<noteq> []" "fst (last ps) \<le> x"
  shows "interp_scan x ps = snd (last ps)"
  using assms
proof (induction x ps rule: interp_scan.induct)
  case (1 x)
  then show ?case by simp
next
  case (2 x a b)
  then show ?case by simp
next
  case (3 x a b c d ps)
  have "c \<le> fst (last ((c, d) # ps))"
    using "3.prems"(1) by (cases ps) (auto simp: last_in_set)
  then have cx: "c \<le> x" using "3.prems"(3) by simp
  then show ?case using "3.IH" [OF cx] "3.prems" by simp
qed

lemma interp_scan_chord:
  assumes "sorted (map fst ps)" "Suc j < length ps" "fst (ps ! j) \<le> x" "x < fst (ps ! Suc j)"
  shows "interp_scan x ps =
           snd (ps ! j) + (snd (ps ! Suc j) - snd (ps ! j)) * (x - fst (ps ! j))
                            / (fst (ps ! Suc j) - fst (ps ! j))"
  using assms
proof (induction x ps arbitrary: j rule: interp_scan.induct)
  case (1 x)
  then show ?case by simp
next
  case (2 x a b)
  then show ?case by simp
next
  case (3 x a b c d ps)
  show ?case
  proof (cases j)
    case 0
    then have "a \<le> x" "x < c" using "3.prems"(3,4) by simp_all
    then show ?thesis using 0 by simp
  next
    case (Suc j')
    have j': "Suc j' < length ((c, d) # ps)" using "3.prems"(2) Suc by simp
    have "sorted (c # map fst ps)" using "3.prems"(1) by simp
    then have "c \<le> (c # map fst ps) ! j'"
      using j' by (intro sorted_Cons_le_nth) simp_all
    moreover have "(c # map fst ps) ! j' = fst (((c, d) # ps) ! j')"
      using j' nth_map [of j' "(c, d) # ps" fst] by simp
    ultimately have "c \<le> fst (((c, d) # ps) ! j')" by simp
    then have cx: "c \<le> x" using "3.prems"(3) Suc by simp
    have "interp_scan x ((c, d) # ps) =
           snd (((c, d) # ps) ! j')
             + (snd (((c, d) # ps) ! Suc j') - snd (((c, d) # ps) ! j'))
                 * (x - fst (((c, d) # ps) ! j'))
                 / (fst (((c, d) # ps) ! Suc j') - fst (((c, d) # ps) ! j'))"
      using "3.prems" Suc by (intro "3.IH" [OF cx]) simp_all
    then show ?thesis using cx Suc by simp
  qed
qed

text \<open>
  \<open>numpy.interp\<close> on sorted sample points is the piecewise linear interpolant, flat outside
  the range of the samples.
\<close>

lemma np_interp_linear:
  assumes "xp \<noteq> []" "length fp = length xp" "sorted xp"
  shows "x < hd xp \<Longrightarrow> np_interp x xp fp = hd fp"
    and "last xp \<le> x \<Longrightarrow> np_interp x xp fp = last fp"
    and "Suc j < length xp \<Longrightarrow> xp ! j \<le> x \<Longrightarrow> x < xp ! Suc j \<Longrightarrow>
           np_interp x xp fp =
             fp ! j + (fp ! Suc j - fp ! j) * (x - xp ! j) / (xp ! Suc j - xp ! j)"
proof -
  have ne: "zip xp fp \<noteq> []" using assms(1,2) by (cases xp; cases fp) simp_all
  have mf: "map fst (zip xp fp) = xp" and ms: "map snd (zip xp fp) = fp"
    using assms(2) by simp_all
  have h: "fst (hd (zip xp fp)) = hd xp" "snd (hd (zip xp fp)) = hd fp"
    using ne mf ms by (metis hd_map)+
  have l: "fst (last (zip xp fp)) = last xp" "snd (last (zip xp fp)) = last fp"
    using ne mf ms by (metis last_map)+
  have srt: "sorted (map fst (zip xp fp))" using assms(3) mf by simp
  have hl: "hd xp \<le> last xp"
    using assms(1,3) by (cases xp) (auto simp: last_in_set)
  show "np_interp x xp fp = hd fp" if "x < hd xp"
    using that ne h by (simp add: np_interp_def Let_def)
  show "np_interp x xp fp = last fp" if "last xp \<le> x"
  proof (cases "last xp < x")
    case True
    then show ?thesis using hl ne h l by (simp add: np_interp_def Let_def)
  next
    case False
    have "interp_scan x (zip xp fp) = snd (last (zip xp fp))"
      using srt ne that l(1) by (intro interp_scan_last) simp_all
    then show ?thesis using False that hl ne h l by (simp add: np_interp_def Let_def)
  qed
  show "np_interp x xp fp =
             fp ! j + (fp ! Suc j - fp ! j) * (x - xp ! j) / (xp ! Suc j - xp ! j)"
    if j: "Suc j < length xp" and lo: "xp ! j \<le> x" and hi: "x < xp ! Suc j"
  proof -
    have jl: "Suc j < length (zip xp fp)" using j assms(2) by simp
    have n: "zip xp fp ! j = (xp ! j, fp ! j)" "zip xp fp ! Suc j = (xp ! Suc j, fp ! Suc j)"
      using j assms(2) by simp_all
    have "hd xp \<le> xp ! j"
    proof (cases xp)
      case Nil
      then show ?thesis using assms(1) by simp
    next
      case (Cons a list)
      then show ?thesis using sorted_Cons_le_nth [of a list j] assms(3) j by simp
    qed
    then have nh: "\<not> x < hd xp" using lo by simp
    have "xp ! Suc j \<le> last xp"
      using assms(3) j by (intro sorted_le_last) simp_all
    then have nl: "\<not> last xp < x" using hi by simp
    have "interp_scan x (zip xp fp) =
           snd (zip xp fp ! j) + (snd (zip xp fp ! Suc j) - snd (zip xp fp ! j))
              * (x - fst (zip xp fp ! j)) / (fst (zip xp fp ! Suc j) - fst (zip xp fp ! j))"
      using srt jl by (rule interp_scan_chord) (simp_all add: n lo hi)
    then show ?thesis using nh nl ne h l n by (simp add: np_interp_def Let_def)
  qed
qed

text \<open>
  C1. Whatever order \<open>sort_values\<close> gives to rows of the same tenor, with
  \<open>N = round (t_max * f)\<close> the bootstrap fails when \<open>f \<le> 0\<close> and when \<open>N \<le> 0\<close>. For \<open>f > 0\<close> and
  \<open>N \<ge> 1\<close> it returns a curve on the grid \<open>t_i = i / f\<close>, \<open>i = 1..N\<close>, whose discount factors
  obey, with the par rate \<open>r_i\<close> interpolated at \<open>t_i\<close> against the sorted quotes and the
  accrual \<open>t_i - t_(i-1)\<close>, the recurrence \<open>DF_1 = 1 / (1 + r_1 * accrual_1)\<close> and
  \<open>DF_i = (1 - r_i * (\<Sum>j<i. accrual_j * DF_j)) / (1 + r_i * accrual_i)\<close>, and whose zero rate at
  node \<open>i\<close> is \<open>- ln DF_i / t_i\<close>. The interpolation is linear between neighbouring quote
  tenors and flat before the first and from the last quote tenor on. Lists are indexed from 0,
  so index \<open>i\<close> is node \<open>i + 1\<close>. (Where a discount factor is not positive numpy's logarithm is
  inf or nan, which the reals do not show.)
\<close>

theorem from_par_swap_dataframe_bootstrap:
  fixes df :: "(real \<times> real) list" and f :: int
    and sv :: "(real \<times> real) list \<Rightarrow> (real \<times> real) list"
  defines "N \<equiv> nat (py_round (Max (fst ` set df) * of_int f))"
  defines "pt \<equiv> map fst (sv df)"
  defines "pr \<equiv> map snd (sv df)"
  defines "R \<equiv> \<lambda>i. np_interp (real (Suc i) / of_int f) pt pr"
  defines "A \<equiv> \<lambda>i. real (Suc i) / of_int f - real i / of_int f"
  assumes sv: "sort_values_by fst sv"
  shows
    "(f \<le> 0 \<longrightarrow>
        from_par_swap_dataframe sv df nm f
          = Inl (ValueError ''Payment frequency must be positive''))
     \<and> (0 < f \<and> df \<noteq> [] \<and> py_round (Max (fst ` set df) * of_int f) \<le> 0 \<longrightarrow>
        from_par_swap_dataframe sv df nm f =
          Inl (ValueError ''Insufficient tenor coverage for bootstrapping''))
     \<and> (0 < f \<and> df \<noteq> [] \<and> 1 \<le> py_round (Max (fst ` set df) * of_int f) \<longrightarrow>
        (\<exists>c ds. from_par_swap_dataframe sv df nm f = Inr c
           \<and> tenors c = map (\<lambda>i. real i / of_int f) [1 ..< Suc N]
           \<and> discount_factors c = Some ds \<and> length ds = N \<and> length (zero_rates c) = N
           \<and> (\<forall>i<N. ds ! i =
                  (if i = 0 then 1 / (1 + R i * A i)
                   else (1 - R i * (\<Sum>j<i. A j * ds ! j)) / (1 + R i * A i))
                \<and> zero_rates c ! i = - ln (ds ! i) / (real (Suc i) / of_int f))))
     \<and> (df \<noteq> [] \<longrightarrow>
          sorted pt \<and> set (zip pt pr) = set df
        \<and> (\<forall>x. (x < hd pt \<longrightarrow> np_interp x pt pr = hd pr)
              \<and> (last pt \<le> x \<longrightarrow> np_interp x pt pr = last pr)
              \<and> (\<forall>j. Suc j < length pt \<and> pt ! j \<le> x \<and> x < pt ! Suc j \<longrightarrow>
                    np_interp x pt pr =
                      pr ! j + (pr ! Suc j - pr ! j) * (x - pt ! j) / (pt ! Suc j - pt ! j))))"
proof (intro conjI impI)
  assume "f \<le> 0"
  then show "from_par_swap_dataframe sv df nm f
      = Inl (ValueError ''Payment frequency must be positive'')"
    by (rule from_par_swap_dataframe_freq)
next
  assume "0 < f \<and> df \<noteq> [] \<and> py_round (Max (fst ` set df) * of_int f) \<le> 0"
  then show "from_par_swap_dataframe sv df nm f =
          Inl (ValueError ''Insufficient tenor coverage for bootstrapping'')"
    using sv by (intro from_par_swap_dataframe_low) simp_all
next
  assume h: "0 < f \<and> df \<noteq> [] \<and> 1 \<le> py_round (Max (fst ` set df) * of_int f)"
  define ts where "ts = map (\<lambda>i. real i / of_int f) [1 ..< Suc N]"
  define ds where "ds = bootstrap_loop pt pr (np_diff (0 # ts)) [] (zip ts (np_diff (0 # ts)))"
  define c where "c = \<lparr>tenors = ts, zero_rates = map2 (\<lambda>d t. - ln d / t) ds ts, name = nm,
                discount_factors = Some ds\<rparr>"
  have ok: "from_par_swap_dataframe sv df nm f = Inr c"
    unfolding c_def ds_def ts_def N_def pt_def pr_def
    using h sv by (intro from_par_swap_dataframe_ok) simp_all
  have lts: "length ts = N" by (simp add: ts_def)
  have lacc: "length (np_diff (0 # ts)) = N" by (simp add: np_diff_def lts)
  have lds: "length ds = N" by (simp add: ds_def bootstrap_loop_length lts lacc)
  have node: "ds ! i =
                  (if i = 0 then 1 / (1 + R i * A i)
                   else (1 - R i * (\<Sum>j<i. A j * ds ! j)) / (1 + R i * A i))
                \<and> zero_rates c ! i = - ln (ds ! i) / (real (Suc i) / of_int f)" if "i < N" for i
  proof
    show "ds ! i = (if i = 0 then 1 / (1 + R i * A i)
                   else (1 - R i * (\<Sum>j<i. A j * ds ! j)) / (1 + R i * A i))"
      unfolding ds_def ts_def R_def A_def using that by (rule bootstrap_grid_nth)
    have "ts ! i = real (Suc i) / of_int f"
      unfolding ts_def using that by (rule grid_nth)
    then show "zero_rates c ! i = - ln (ds ! i) / (real (Suc i) / of_int f)"
      using that lts lds by (simp add: c_def del: divide_minus_left)
  qed
  have "from_par_swap_dataframe sv df nm f = Inr c
           \<and> tenors c = map (\<lambda>i. real i / of_int f) [1 ..< Suc N]
           \<and> discount_factors c = Some ds \<and> length ds = N \<and> length (zero_rates c) = N
           \<and> (\<forall>i<N. ds ! i =
                  (if i = 0 then 1 / (1 + R i * A i)
                   else (1 - R i * (\<Sum>j<i. A j * ds ! j)) / (1 + R i * A i))
                \<and> zero_rates c ! i = - ln (ds ! i) / (real (Suc i) / of_int f))"
    using ok node lds lts by (simp add: c_def ts_def del: upt_Suc)
  then show "\<exists>c ds. from_par_swap_dataframe sv df nm f = Inr c
           \<and> tenors c = map (\<lambda>i. real i / of_int f) [1 ..< Suc N]
           \<and> discount_factors c = Some ds \<and> length ds = N \<and> length (zero_rates c) = N
           \<and> (\<forall>i<N. ds ! i =
                  (if i = 0 then 1 / (1 + R i * A i)
                   else (1 - R i * (\<Sum>j<i. A j * ds ! j)) / (1 + R i * A i))
                \<and> zero_rates c ! i = - ln (ds ! i) / (real (Suc i) / of_int f))"
    by blast
next
  assume ne: "df \<noteq> []"
  note f = sort_values_by_facts [OF sv, of df]
  show srt: "sorted pt" unfolding pt_def by (rule f(2))
  show "set (zip pt pr) = set df"
    unfolding pt_def pr_def using f(1) by (simp add: zip_map_fst_snd)
  have pne: "pt \<noteq> []" using ne f(3) by (simp add: pt_def)
  have len: "length pr = length pt" by (simp add: pt_def pr_def)
  note lin = np_interp_linear [OF pne len srt]
  show "\<forall>x. (x < hd pt \<longrightarrow> np_interp x pt pr = hd pr)
              \<and> (last pt \<le> x \<longrightarrow> np_interp x pt pr = last pr)
              \<and> (\<forall>j. Suc j < length pt \<and> pt ! j \<le> x \<and> x < pt ! Suc j \<longrightarrow>
                    np_interp x pt pr =
                      pr ! j + (pr ! Suc j - pr ! j) * (x - pt ! j) / (pt ! Suc j - pt ! j))"
    using lin by blast
qed

theorem from_par_swap_dataframe_bootstrap_witness:
  "sort_values_by fst (sort_key fst :: (real \<times> real) list \<Rightarrow> (real \<times> real) list)
   \<and> (0::int) < 4 \<and> [(1 / 2, 1 / 20), (1 / 4, 1 / 25 :: real)] \<noteq> []
   \<and> 1 \<le> py_round (Max (fst ` set [(1 / 2, 1 / 20), (1 / 4, 1 / 25 :: real)]) * of_int 4)
   \<and> (\<exists>c ds. from_par_swap_dataframe (sort_key fst) [(1 / 2, 1 / 20), (1 / 4, 1 / 25)]
                 (Plain ''SONIA'') 4 = Inr c
         \<and> tenors c = [1 / 4, 1 / 2] \<and> discount_factors c = Some ds \<and> length ds = 2
         \<and> ds ! 0 = 100 / 101
         \<and> ds ! 1 = (1 - 1 / 20 * (1 / 4 * ds ! 0)) / (1 + 1 / 20 * (1 / 4))
         \<and> zero_rates c ! 1 = - ln (ds ! 1) / (1 / 2))
   \<and> np_interp (1 / 8) [1 / 4, 1 / 2] [1 / 25, 1 / 20] = 1 / 25
   \<and> np_interp 1 [1 / 4, 1 / 2] [1 / 25, 1 / 20] = 1 / 20
   \<and> np_interp (3 / 8) [1 / 4, 1 / 2] [1 / 25, 1 / 20]
       = 1 / 25 + (1 / 20 - 1 / 25) * (3 / 8 - 1 / 4) / (1 / 2 - 1 / 4)
   \<and> (0::int) \<le> 0
   \<and> from_par_swap_dataframe (sort_key fst) [(1 / 2, 1 / 20), (1 / 4, 1 / 25)]
         (Plain ''SONIA'') 0
         = Inl (ValueError ''Payment frequency must be positive'')
   \<and> py_round (Max (fst ` set [(1 / 10, 1 / 20 :: real)]) * of_int 4) \<le> 0
   \<and> from_par_swap_dataframe (sort_key fst) [(1 / 10, 1 / 20)] (Plain ''SONIA'') 4
         = Inl (ValueError ''Insufficient tenor coverage for bootstrapping'')"
proof -
  have r2: "py_round (Max (fst ` set [(1 / 2, 1 / 20), (1 / 4, 1 / 25 :: real)]) * of_int 4) = 2"
    by (simp add: py_round_def)
  have r0: "py_round (Max (fst ` set [(1 / 10, 1 / 20 :: real)]) * of_int 4) = 0"
    by (simp add: py_round_def)
  have i1: "np_interp (1 / 4) [1 / 4, 1 / 2] [1 / 25, 1 / 20] = 1 / 25"
    by (simp add: np_interp_def)
  have i2: "np_interp (1 / 2) [1 / 4, 1 / 2] [1 / 25, 1 / 20] = 1 / 20"
    by (simp add: np_interp_def)
  have nums: "nat 2 = Suc (Suc 0)" by simp
  note sk = sort_key_sort_values_by [of "fst :: real \<times> real \<Rightarrow> real"]
  note T = from_par_swap_dataframe_bootstrap [OF sk]
  have a: "\<exists>c ds. from_par_swap_dataframe (sort_key fst) [(1 / 2, 1 / 20), (1 / 4, 1 / 25)]
                 (Plain ''SONIA'') 4 = Inr c
         \<and> tenors c = [1 / 4, 1 / 2] \<and> discount_factors c = Some ds \<and> length ds = 2
         \<and> ds ! 0 = 100 / 101
         \<and> ds ! 1 = (1 - 1 / 20 * (1 / 4 * ds ! 0)) / (1 + 1 / 20 * (1 / 4))
         \<and> zero_rates c ! 1 = - ln (ds ! 1) / (1 / 2)"
    using T [where f = 4 and df = "[(1 / 2, 1 / 20), (1 / 4, 1 / 25)]" and nm = "Plain ''SONIA''"]
    unfolding r2 nums
    by (simp add: i1 i2 All_less_Suc lessThan_Suc) (auto simp: numeral_2_eq_2 mult.commute)
  have b: "from_par_swap_dataframe (sort_key fst) [(1 / 2, 1 / 20), (1 / 4, 1 / 25)]
         (Plain ''SONIA'') 0
         = Inl (ValueError ''Payment frequency must be positive'')"
    using T [where f = 0 and df = "[(1 / 2, 1 / 20), (1 / 4, 1 / 25)]" and nm = "Plain ''SONIA''"]
    by simp
  have c: "from_par_swap_dataframe (sort_key fst) [(1 / 10, 1 / 20)] (Plain ''SONIA'') 4
         = Inl (ValueError ''Insufficient tenor coverage for bootstrapping'')"
    using T [where f = 4 and df = "[(1 / 10, 1 / 20)]" and nm = "Plain ''SONIA''"]
    unfolding r0 by simp
  have lin: "\<forall>x. (x < 1 / 4 \<longrightarrow> np_interp x [1 / 4, 1 / 2] [1 / 25, 1 / 20] = 1 / 25)
              \<and> (1 / 2 \<le> x \<longrightarrow> np_interp x [1 / 4, 1 / 2] [1 / 25, 1 / 20] = 1 / 20)
              \<and> (\<forall>j. Suc j < 2 \<and> [1 / 4, 1 / 2] ! j \<le> x \<and> x < [1 / 4, 1 / 2] ! Suc j \<longrightarrow>
                    np_interp x [1 / 4, 1 / 2] [1 / 25, 1 / 20] =
                      [1 / 25, 1 / 20] ! j + ([1 / 25, 1 / 20] ! Suc j - [1 / 25, 1 / 20] ! j)
                         * (x - [1 / 4, 1 / 2] ! j) / ([1 / 4, 1 / 2] ! Suc j - [1 / 4, 1 / 2] ! j))"
    using T [where f = 4 and df = "[(1 / 2, 1 / 20), (1 / 4, 1 / 25)]" and nm = "Plain ''SONIA''"]
    by simp
  have d1: "np_interp (1 / 8) [1 / 4, 1 / 2] [1 / 25, 1 / 20] = 1 / 25"
    using lin by simp
  have d2: "np_interp 1 [1 / 4, 1 / 2] [1 / 25, 1 / 20] = 1 / 20"
    using lin by simp
  have "Suc 0 < 2 \<and> [1 / 4, 1 / 2 :: real] ! 0 \<le> 3 / 8 \<and> (3 / 8 :: real) < [1 / 4, 1 / 2] ! Suc 0"
    by simp
  then have d3: "np_interp (3 / 8) [1 / 4, 1 / 2] [1 / 25, 1 / 20]
       = 1 / 25 + (1 / 20 - 1 / 25) * (3 / 8 - 1 / 4) / (1 / 2 - 1 / 4)"
    using lin by (metis nth_Cons_0 nth_Cons_Suc)
  show ?thesis
    using a b c d1 d2 d3 sk r2 r0 by simp
qed

section \<open>The bootstrap of a flat par curve\<close>

lemma interp_scan_flat:
  "ps \<noteq> [] \<Longrightarrow> \<forall>p \<in> set ps. snd p = r \<Longrightarrow> interp_scan x ps = r"
  by (induction x ps rule: interp_scan.induct) simp_all

lemma np_interp_flat:
  assumes "xp \<noteq> []" "length fp = length xp" "\<forall>y \<in> set fp. y = r"
  shows "np_interp x xp fp = r"
proof -
  have ne: "zip xp fp \<noteq> []" using assms(1,2) by (cases xp; cases fp) simp_all
  have all: "\<forall>p \<in> set (zip xp fp). snd p = r"
    using assms(3) by (auto dest: set_zip_rightD)
  have "snd (hd (zip xp fp)) = r" "snd (last (zip xp fp)) = r"
    using ne all by simp_all
  then show ?thesis
    using ne all by (simp add: np_interp_def Let_def interp_scan_flat)
qed

lemma flat_telescope:
  fixes x :: real
  assumes "1 + x \<noteq> 0"
  shows "1 - x * (\<Sum>j<i. (1 / (1 + x)) ^ Suc j) = (1 / (1 + x)) ^ i"
proof (induction i)
  case 0
  then show ?case by simp
next
  case (Suc i)
  have q: "1 - x * (1 / (1 + x)) = 1 / (1 + x)"
    using assms by (simp add: field_simps)
  have "1 - x * (\<Sum>j<Suc i. (1 / (1 + x)) ^ Suc j)
      = (1 - x * (\<Sum>j<i. (1 / (1 + x)) ^ Suc j)) - x * (1 / (1 + x)) ^ Suc i"
    by (simp add: algebra_simps)
  also have "\<dots> = (1 / (1 + x)) ^ i - x * (1 / (1 + x)) ^ Suc i"
    by (simp only: Suc.IH)
  also have "\<dots> = (1 / (1 + x)) ^ i * (1 - x * (1 / (1 + x)))"
    by (simp add: algebra_simps)
  also have "\<dots> = (1 / (1 + x)) ^ Suc i"
    by (simp only: q) simp
  finally show ?case .
qed

lemma flat_nodes:
  fixes F r :: real and ds :: "real list"
  assumes F: "0 < F" and nz: "1 + r / F \<noteq> 0"
    and rec: "\<And>i. i < N \<Longrightarrow> ds ! i =
       (if i = 0 then 1 / (1 + r * (real (Suc i) / F - real i / F))
        else (1 - r * (\<Sum>j<i. (real (Suc j) / F - real j / F) * ds ! j))
             / (1 + r * (real (Suc i) / F - real i / F)))"
  shows "i < N \<Longrightarrow> ds ! i = (1 / (1 + r / F)) ^ Suc i"
proof (induction i rule: less_induct)
  case (less i)
  have acc: "real (Suc j) / F - real j / F = 1 / F" for j
    using F by (simp add: field_simps)
  have acc': "r * (real (Suc j) / F - real j / F) = r / F" for j
    unfolding acc by simp
  show ?case
  proof (cases "i = 0")
    case True
    then show ?thesis using rec [OF less.prems] by (simp only: acc' if_True) simp
  next
    case False
    have "(\<Sum>j<i. (real (Suc j) / F - real j / F) * ds ! j)
        = (\<Sum>j<i. 1 / F * (1 / (1 + r / F)) ^ Suc j)"
    proof (rule sum.cong [OF refl])
      fix j assume "j \<in> {..<i}"
      then have "j < i" by simp
      then have "ds ! j = (1 / (1 + r / F)) ^ Suc j"
        using less.IH less.prems by simp
      then show "(real (Suc j) / F - real j / F) * ds ! j = 1 / F * (1 / (1 + r / F)) ^ Suc j"
        unfolding acc by simp
    qed
    also have "\<dots> = 1 / F * (\<Sum>j<i. (1 / (1 + r / F)) ^ Suc j)"
      by (simp only: sum_distrib_left)
    finally have s: "r * (\<Sum>j<i. (real (Suc j) / F - real j / F) * ds ! j)
        = r / F * (\<Sum>j<i. (1 / (1 + r / F)) ^ Suc j)"
      by simp
    have "ds ! i = (1 - r / F * (\<Sum>j<i. (1 / (1 + r / F)) ^ Suc j)) / (1 + r / F)"
      using rec [OF less.prems] False by (simp only: acc' s if_False)
    also have "\<dots> = (1 / (1 + r / F)) ^ i / (1 + r / F)"
      by (simp only: flat_telescope [OF nz])
    also have "\<dots> = (1 / (1 + r / F)) ^ Suc i"
      by simp
    finally show ?thesis .
  qed
qed

lemma flat_zero_rate:
  fixes F r :: real
  assumes "0 < F" "0 < 1 + r / F"
  shows "- ln ((1 / (1 + r / F)) ^ Suc i) / (real (Suc i) / F) = F * ln (1 + r / F)"
proof -
  have "ln ((1 / (1 + r / F)) ^ Suc i) = real (Suc i) * ln (1 / (1 + r / F))"
    by (rule ln_realpow)
  also have "\<dots> = - (real (Suc i) * ln (1 + r / F))"
    using assms(2) by (simp add: ln_div)
  finally show ?thesis using assms(1) by simp
qed


text \<open>
  C2, as the bootstrap has it. On a quote table that carries one par rate \<open>r\<close> at every tenor
  (with \<open>f > 0\<close>, at least one grid node and \<open>1 + r / f > 0\<close>), and whatever order
  \<open>sort_values\<close> gives to rows of the same tenor, every discount factor is
  \<open>(1 + r / f) ^ - i\<close> and every node has the zero rate \<open>f * ln (1 + r / f)\<close>: the continuously
  compounded equivalent of the par rate \<open>r\<close> paid \<open>f\<close> times a year, not \<open>r\<close> itself.
\<close>

theorem flat_bootstrap_zero_rates:
  fixes df :: "(real \<times> real) list" and f :: int and r :: real
    and sv :: "(real \<times> real) list \<Rightarrow> (real \<times> real) list"
  defines "N \<equiv> nat (py_round (Max (fst ` set df) * of_int f))"
  assumes "df \<noteq> []" and "\<forall>p \<in> set df. snd p = r" and "0 < f"
    and "1 \<le> py_round (Max (fst ` set df) * of_int f)" and "0 < 1 + r / of_int f"
    and sv: "sort_values_by fst sv"
  shows "\<exists>c. from_par_swap_dataframe sv df nm f = Inr c \<and> length (zero_rates c) = N
           \<and> (\<forall>i<N. zero_rates c ! i = of_int f * ln (1 + r / of_int f))"
proof -
  define F where "F = real_of_int f"
  define pt where "pt = map fst (sv df)"
  define pr where "pr = map snd (sv df)"
  define ts where "ts = map (\<lambda>i. real i / F) [1 ..< Suc N]"
  define ds where "ds = bootstrap_loop pt pr (np_diff (0 # ts)) [] (zip ts (np_diff (0 # ts)))"
  define c where "c = \<lparr>tenors = ts, zero_rates = map2 (\<lambda>d t. - ln d / t) ds ts, name = nm,
                discount_factors = Some ds\<rparr>"
  have F: "0 < F" using assms(4) by (simp add: F_def)
  have ok: "from_par_swap_dataframe sv df nm f = Inr c"
    unfolding c_def ds_def ts_def N_def pt_def pr_def F_def
    using assms(2,4,5) sv by (rule from_par_swap_dataframe_ok)
  have lts: "length ts = N" by (simp add: ts_def)
  have lacc: "length (np_diff (0 # ts)) = N" by (simp add: np_diff_def lts)
  have lds: "length ds = N" by (simp add: ds_def bootstrap_loop_length lts lacc)
  note svf = sort_values_by_facts [OF sv, of df]
  have pt_ne: "pt \<noteq> []" using assms(2) svf(3) by (simp add: pt_def)
  have flat: "\<forall>y \<in> set pr. y = r" using assms(3) svf(1) by (auto simp: pr_def)
  have interp: "np_interp x pt pr = r" for x
    using pt_ne _ flat by (rule np_interp_flat) (simp add: pt_def pr_def)
  have rec: "ds ! i =
       (if i = 0 then 1 / (1 + r * (real (Suc i) / F - real i / F))
        else (1 - r * (\<Sum>j<i. (real (Suc j) / F - real j / F) * ds ! j))
             / (1 + r * (real (Suc i) / F - real i / F)))" if "i < N" for i
    using bootstrap_grid_nth [OF that, where F = F and pt = pt and pr = pr]
    unfolding ts_def [symmetric] ds_def [symmetric] interp .
  have nz: "1 + r / F \<noteq> 0" using assms(6) by (simp add: F_def)
  have node: "zero_rates c ! i = F * ln (1 + r / F)" if "i < N" for i
  proof -
    have "ds ! i = (1 / (1 + r / F)) ^ Suc i"
      using F nz rec that by (rule flat_nodes)
    moreover have "ts ! i = real (Suc i) / F"
      unfolding ts_def using that by (rule grid_nth)
    moreover have "zero_rates c ! i = - ln (ds ! i) / (ts ! i)"
      using that lts lds by (simp add: c_def del: divide_minus_left)
    ultimately show ?thesis
      using flat_zero_rate [OF F, of r i] assms(6) by (simp only: F_def)
  qed
  have "length (zero_rates c) = N" by (simp add: c_def lds lts)
  then show ?thesis using ok node unfolding F_def by blast
qed

theorem flat_bootstrap_zero_rates_witness:
  "sort_values_by fst (sort_key fst :: (real \<times> real) list \<Rightarrow> (real \<times> real) list)
   \<and> [(1 / 4, 1 / 20), (1, 1 / 20 :: real)] \<noteq> []
   \<and> list_all (\<lambda>p. snd p = 1 / 20) [(1 / 4, 1 / 20), (1, 1 / 20 :: real)]
   \<and> (0::int) < 4
   \<and> 1 \<le> py_round (Max (fst ` set [(1 / 4, 1 / 20), (1, 1 / 20 :: real)]) * of_int 4)
   \<and> (0::real) < 1 + (1 / 20) / of_int 4
   \<and> (\<exists>c. from_par_swap_dataframe (sort_key fst) [(1 / 4, 1 / 20), (1, 1 / 20)]
              (Plain ''flat'') 4 = Inr c
         \<and> length (zero_rates c) = 4
         \<and> zero_rates c ! 0 = 4 * ln (81 / 80) \<and> zero_rates c ! 1 = 4 * ln (81 / 80)
         \<and> zero_rates c ! 2 = 4 * ln (81 / 80) \<and> zero_rates c ! 3 = 4 * ln (81 / 80))"
proof -
  have r4: "py_round (Max (fst ` set [(1 / 4, 1 / 20), (1, 1 / 20 :: real)]) * of_int 4) = 4"
    by (simp add: py_round_def)
  note sk = sort_key_sort_values_by [of "fst :: real \<times> real \<Rightarrow> real"]
  show ?thesis
    using flat_bootstrap_zero_rates
        [where df = "[(1 / 4, 1 / 20), (1, 1 / 20)]" and f = 4 and r = "1 / 20"
           and nm = "Plain ''flat''" and sv = "sort_key fst"] sk
    unfolding r4 by auto
qed

text \<open>
  C2 as stated does not hold. For \<open>r = 0.05\<close> and \<open>f = 4\<close> the zero rate of the first node is
  \<open>4 * ln (81 / 80)\<close>, about \<open>0.04969\<close>, which is further than \<open>1e-9\<close> from \<open>0.05\<close>.
\<close>

lemma ln_81_80_gap: "4 * ln (81 / 80 :: real) < 1 / 20 - 1 / 10 ^ 9"
proof -
  define y :: real where "y = (1 / 20 - 1 / 10 ^ 9) / 4"
  have y0: "0 \<le> y" by (simp add: y_def)
  have "(81 / 80 :: real) < 1 + y + y\<^sup>2 / 2"
    by (simp add: y_def power2_eq_square)
  also have "\<dots> \<le> exp y" using y0 by (rule exp_lower_Taylor_quadratic)
  finally have "ln (81 / 80 :: real) < ln (exp y)"
    by (subst ln_less_cancel_iff) simp_all
  then show ?thesis by (simp add: y_def)
qed

theorem flat_bootstrap_not_par_rate:
  "from_par_swap_dataframe (sort_key fst) [(1 / 4, 1 / 20)] (Plain ''flat'') 4 =
     Inr \<lparr>tenors = [1 / 4], zero_rates = [- ln (80 / 81) / (1 / 4)], name = Plain ''flat'',
          discount_factors = Some [80 / 81]\<rparr>
   \<and> 1 / 10 ^ 9 < \<bar>- ln (80 / 81) / (1 / 4) - 1 / 20 :: real\<bar>"
proof
  have r1: "py_round (Max (fst ` set [(1 / 4, 1 / 20 :: real)]) * of_int 4) = 1"
    by (simp add: py_round_def)
  have "(1::int) \<le> py_round (Max (fst ` set [(1 / 4, 1 / 20 :: real)]) * of_int 4)"
    unfolding r1 by simp
  from from_par_swap_dataframe_ok [OF _ _ this sort_key_sort_values_by, of "Plain ''flat''"]
  show "from_par_swap_dataframe (sort_key fst) [(1 / 4, 1 / 20)] (Plain ''flat'') 4 =
     Inr \<lparr>tenors = [1 / 4], zero_rates = [- ln (80 / 81) / (1 / 4)], name = Plain ''flat'',
          discount_factors = Some [80 / 81]\<rparr>"
    unfolding r1 by (simp add: np_diff_def np_interp_def)
next
  have "ln (80 / 81 :: real) = - ln (81 / 80)"
    using ln_div [of 80 "81::real"] ln_div [of 81 "80::real"] by simp
  then show "1 / 10 ^ 9 < \<bar>- ln (80 / 81) / (1 / 4) - 1 / 20 :: real\<bar>"
    using ln_81_80_gap by simp
qed

section \<open>Monotonicity of interpolation and of the discount factor\<close>

lemma chord_bounds:
  fixes a b c d x :: real
  assumes "a \<le> x" "x < c" "b \<le> d"
  shows "b \<le> (d - b) / (c - a) * (x - a) + b" and "(d - b) / (c - a) * (x - a) + b \<le> d"
proof -
  have ca: "0 < c - a" using assms(1,2) by simp
  have "0 \<le> (d - b) / (c - a) * (x - a)"
    using assms ca by (intro mult_nonneg_nonneg divide_nonneg_pos) simp_all
  then show "b \<le> (d - b) / (c - a) * (x - a) + b" by simp
  have "(d - b) / (c - a) * (x - a) = (d - b) * ((x - a) / (c - a))" by simp
  also have "\<dots> \<le> (d - b) * 1"
    using assms ca by (intro mult_left_mono) (simp_all add: divide_le_eq)
  finally show "(d - b) / (c - a) * (x - a) + b \<le> d" by simp
qed

lemma chord_mono:
  fixes a b c d x y :: real
  assumes "a \<le> x" "x \<le> y" "y < c" "b \<le> d"
  shows "(d - b) / (c - a) * (x - a) + b \<le> (d - b) / (c - a) * (y - a) + b"
proof -
  have "0 \<le> (d - b) / (c - a)" using assms by (intro divide_nonneg_pos) simp_all
  then have "(d - b) / (c - a) * (x - a) \<le> (d - b) / (c - a) * (y - a)"
    using assms(2) by (intro mult_left_mono) simp_all
  then show ?thesis by (simp only: add_le_cancel_right)
qed

lemma interp_scan_lower:
  assumes "sorted (map snd ps)" "ps \<noteq> []" "fst (hd ps) \<le> x"
  shows "snd (hd ps) \<le> interp_scan x ps"
  using assms
proof (induction x ps rule: interp_scan.induct)
  case (1 x)
  then show ?case by simp
next
  case (2 x a b)
  then show ?case by simp
next
  case (3 x a b c d ps)
  show ?case
  proof (cases "c \<le> x")
    case True
    have "d \<le> interp_scan x ((c, d) # ps)"
      using "3.IH" [OF True] "3.prems"(1) True by simp
    moreover have "b \<le> d" using "3.prems"(1) by simp
    ultimately show ?thesis using True by simp
  next
    case False
    have bd: "b \<le> d" using "3.prems"(1) by simp
    have "a \<le> x" using "3.prems"(3) by simp
    then show ?thesis
      using False chord_bounds(1) [of a x c b d] bd by simp
  qed
qed

lemma interp_scan_upper:
  assumes "sorted (map snd ps)" "ps \<noteq> []" "fst (hd ps) \<le> x"
  shows "interp_scan x ps \<le> snd (last ps)"
  using assms
proof (induction x ps rule: interp_scan.induct)
  case (1 x)
  then show ?case by simp
next
  case (2 x a b)
  then show ?case by simp
next
  case (3 x a b c d ps)
  have lastd: "d \<le> snd (last ((c, d) # ps))"
    using "3.prems"(1) by (cases ps) (auto simp: last_in_set)
  have bd: "b \<le> d" using "3.prems"(1) by simp
  show ?case
  proof (cases "c \<le> x")
    case True
    have "interp_scan x ((c, d) # ps) \<le> snd (last ((c, d) # ps))"
      using "3.IH" [OF True] "3.prems"(1) True by simp
    then show ?thesis using True by simp
  next
    case False
    have ax: "a \<le> x" using "3.prems"(3) by simp
    have "interp_scan x ((a, b) # (c, d) # ps) \<le> d"
      using False chord_bounds(2) [of a x c b d] bd ax by simp
    then show ?thesis using lastd by simp
  qed
qed

lemma interp_scan_mono:
  assumes "sorted (map snd ps)" "ps \<noteq> []" "fst (hd ps) \<le> x" "x \<le> y"
  shows "interp_scan x ps \<le> interp_scan y ps"
  using assms
proof (induction x ps rule: interp_scan.induct)
  case (1 x)
  then show ?case by simp
next
  case (2 x a b)
  then show ?case by simp
next
  case (3 x a b c d ps)
  have bd: "b \<le> d" using "3.prems"(1) by simp
  have ax: "a \<le> x" using "3.prems"(3) by simp
  show ?case
  proof (cases "c \<le> x")
    case True
    then have "c \<le> y" using "3.prems"(4) by simp
    moreover have "interp_scan x ((c, d) # ps) \<le> interp_scan y ((c, d) # ps)"
      using "3.IH" [OF True] "3.prems"(1,4) True by simp
    ultimately show ?thesis using True by simp
  next
    case False
    have lhs: "interp_scan x ((a, b) # (c, d) # ps) \<le> d"
      using False chord_bounds(2) [of a x c b d] bd ax by simp
    show ?thesis
    proof (cases "c \<le> y")
      case True
      have "d \<le> interp_scan y ((c, d) # ps)"
        using interp_scan_lower [of "(c, d) # ps" y] "3.prems"(1) True by simp
      then show ?thesis using lhs True by simp
    next
      case yc: False
      show ?thesis
      proof (cases "a = x")
        case True
        then show ?thesis
          using yc False chord_bounds(1) [of a y c b d] bd "3.prems"(4) by simp
      next
        case xa: False
        then have "a \<noteq> y" using ax "3.prems"(4) by simp
        then show ?thesis
          using xa yc False chord_mono [of a x y c b d] ax "3.prems"(4) bd by simp
      qed
    qed
  qed
qed

lemma interp_scan_uminus:
  "interp_scan x (map (\<lambda>p. (fst p, - snd p)) ps) = - interp_scan x ps"
proof (induction x ps rule: interp_scan.induct)
  case (1 x)
  then show ?case by simp
next
  case (2 x a b)
  then show ?case by simp
next
  case (3 x a b c d ps)
  have "(- d - - b) / (c - a) * (x - a) + - b = - ((d - b) / (c - a) * (x - a) + b)"
    by (simp add: algebra_simps diff_divide_distrib)
  then show ?case using 3 by simp
qed


lemma zip_aligned:
  assumes "xp \<noteq> []" "length fp = length xp"
  shows "zip xp fp \<noteq> []" "map snd (zip xp fp) = fp" "snd (hd (zip xp fp)) = hd fp"
    "snd (last (zip xp fp)) = last fp" "fst (hd (zip xp fp)) = hd xp"
    "fst (last (zip xp fp)) = last xp"
proof -
  show ne: "zip xp fp \<noteq> []" using assms by (cases xp; cases fp) simp_all
  show ms: "map snd (zip xp fp) = fp" using assms(2) by simp
  have mf: "map fst (zip xp fp) = xp" using assms(2) by simp
  show "snd (hd (zip xp fp)) = hd fp" using ne ms by (metis hd_map)
  show "snd (last (zip xp fp)) = last fp" using ne ms by (metis last_map)
  show "fst (hd (zip xp fp)) = hd xp" using ne mf by (metis hd_map)
  show "fst (last (zip xp fp)) = last xp" using ne mf by (metis last_map)
qed

lemma sorted_hd_le_last: "sorted (ys :: real list) \<Longrightarrow> ys \<noteq> [] \<Longrightarrow> hd ys \<le> last ys"
  by (cases ys) (auto simp: last_in_set)

lemma np_interp_bounds:
  assumes "xp \<noteq> []" "length fp = length xp" "sorted fp"
  shows "hd fp \<le> np_interp x xp fp" and "np_interp x xp fp \<le> last fp"
proof -
  note z = zip_aligned [OF assms(1,2)]
  have fp_ne: "fp \<noteq> []" using assms(1,2) by auto
  have hl: "hd fp \<le> last fp" using assms(3) fp_ne by (rule sorted_hd_le_last)
  have srt: "sorted (map snd (zip xp fp))" using assms(3) z(2) by simp
  show "hd fp \<le> np_interp x xp fp"
    using interp_scan_lower [OF srt z(1), of x] hl z
    by (simp add: np_interp_def Let_def)
  show "np_interp x xp fp \<le> last fp"
    using interp_scan_upper [OF srt z(1), of x] hl z
    by (simp add: np_interp_def Let_def)
qed

lemma np_interp_mono:
  assumes "xp \<noteq> []" "length fp = length xp" "sorted fp" "x \<le> y"
  shows "np_interp x xp fp \<le> np_interp y xp fp"
proof -
  note z = zip_aligned [OF assms(1,2)]
  have fp_ne: "fp \<noteq> []" using assms(1,2) by auto
  have hl: "hd fp \<le> last fp" using assms(3) fp_ne by (rule sorted_hd_le_last)
  have srt: "sorted (map snd (zip xp fp))" using assms(3) z(2) by simp
  show ?thesis
  proof (cases "x < hd xp")
    case True
    then have "np_interp x xp fp = hd fp" using z by (simp add: np_interp_def Let_def)
    then show ?thesis using np_interp_bounds(1) [OF assms(1,2,3), of y] by simp
  next
    case xh: False
    then have yh: "\<not> y < hd xp" using assms(4) by simp
    show ?thesis
    proof (cases "last xp < y")
      case True
      then have "np_interp y xp fp = last fp"
        using z yh by (simp add: np_interp_def Let_def)
      then show ?thesis using np_interp_bounds(2) [OF assms(1,2,3), of x] by simp
    next
      case False
      then have "\<not> last xp < x" using assms(4) by simp
      then have "np_interp x xp fp = interp_scan x (zip xp fp)"
        using z xh by (simp add: np_interp_def Let_def)
      moreover have "np_interp y xp fp = interp_scan y (zip xp fp)"
        using z yh False by (simp add: np_interp_def Let_def)
      moreover have "interp_scan x (zip xp fp) \<le> interp_scan y (zip xp fp)"
        using srt z(1) _ assms(4) by (rule interp_scan_mono) (use xh z in simp)
      ultimately show ?thesis by simp
    qed
  qed
qed

lemma np_interp_uminus:
  assumes "length fp = length xp"
  shows "np_interp x xp (map uminus fp) = - np_interp x xp fp"
proof -
  have zz: "zip xp (map uminus fp) = map (\<lambda>p. (fst p, - snd p)) (zip xp fp)"
    by (simp add: zip_map2 case_prod_beta)
  show ?thesis
  proof (cases "zip xp fp = []")
    case True
    then show ?thesis by (simp add: np_interp_def zz)
  next
    case False
    then show ?thesis
      unfolding np_interp_def zz Let_def
      by (simp add: interp_scan_uminus hd_map last_map)
  qed
qed

lemma constructed_facts:
  assumes "constructed c"
  shows "tenors c \<noteq> []" "zero_rates c \<noteq> []" "length (zero_rates c) = length (tenors c)"
    "sorted (tenors c)" "0 < hd (tenors c)" "0 < last (tenors c)"
proof -
  show ne: "tenors c \<noteq> []" and len: "length (zero_rates c) = length (tenors c)"
    and srt: "sorted (tenors c)" and hd: "0 < hd (tenors c)"
    using assms by (simp_all add: constructed_def)
  show "zero_rates c \<noteq> []" using ne len by auto
  have "hd (tenors c) \<le> last (tenors c)" using srt ne by (rule sorted_hd_le_last)
  then show "0 < last (tenors c)" using hd by simp
qed

lemma zero_rate_nonneg:
  assumes "constructed c" "sorted (zero_rates c)" "\<forall>r \<in> set (zero_rates c). 0 \<le> r"
  shows "0 \<le> zero_rate c t"
proof -
  note cf = constructed_facts [OF assms(1)]
  have h: "0 \<le> hd (zero_rates c)" and l: "0 \<le> last (zero_rates c)"
    using assms(3) cf(2) by simp_all
  have "hd (zero_rates c) \<le> np_interp t (tenors c) (zero_rates c)"
    using cf(1,3) assms(2) by (rule np_interp_bounds(1))
  then show ?thesis using h l by (simp add: zero_rate_def)
qed

lemma zero_rate_mono:
  assumes "constructed c" "sorted (zero_rates c)" "0 < t1" "t1 \<le> t2"
  shows "zero_rate c t1 \<le> zero_rate c t2"
proof -
  note cf = constructed_facts [OF assms(1)]
  have t2: "0 < t2" using assms(3,4) by simp
  show ?thesis
  proof (cases "last (tenors c) \<le> t2")
    case True
    have "np_interp t1 (tenors c) (zero_rates c) \<le> last (zero_rates c)"
      using cf(1,3) assms(2) by (rule np_interp_bounds(2))
    then show ?thesis using True assms(3) t2 by (simp add: zero_rate_def)
  next
    case False
    then have "\<not> last (tenors c) \<le> t1" using assms(4) by simp
    moreover have "np_interp t1 (tenors c) (zero_rates c) \<le> np_interp t2 (tenors c) (zero_rates c)"
      using cf(1,3) assms(2,4) by (rule np_interp_mono)
    ultimately show ?thesis using False assms(3) t2 by (simp add: zero_rate_def)
  qed
qed

lemma discount_factor_mono_nocache:
  assumes "constructed c" "discount_factors c = None" "sorted (zero_rates c)"
    "\<forall>r \<in> set (zero_rates c). 0 \<le> r" "t1 \<le> t2"
  shows "discount_factor c t2 \<le> discount_factor c t1"
proof (cases "0 < t1")
  case True
  then have t2: "0 < t2" using assms(5) by simp
  have "zero_rate c t1 * t1 \<le> zero_rate c t2 * t2"
    using zero_rate_mono [OF assms(1,3) True assms(5)] assms(5) True
      zero_rate_nonneg [OF assms(1,3,4), of t2]
    by (intro mult_mono) simp_all
  then show ?thesis using True t2 assms(2) by (simp add: discount_factor_def)
next
  case False
  then have one: "discount_factor c t1 = 1" by (simp add: discount_factor_def)
  show ?thesis
  proof (cases "0 < t2")
    case True
    have "0 \<le> zero_rate c t2 * t2"
      using zero_rate_nonneg [OF assms(1,3,4), of t2] True by simp
    then show ?thesis using True assms(2) one by (simp add: discount_factor_def)
  next
    case False
    then show ?thesis using one by (simp add: discount_factor_def)
  qed
qed


lemma sorted_products:
  fixes rs ts :: "real list"
  assumes "sorted rs" "sorted ts" "length rs = length ts"
    "\<forall>r \<in> set rs. 0 \<le> r" "\<forall>t \<in> set ts. 0 \<le> t"
  shows "sorted (map2 (*) rs ts)"
proof -
  have "map2 (*) rs ts ! i \<le> map2 (*) rs ts ! j"
    if "i \<le> j" "j < length (map2 (*) rs ts)" for i j
  proof -
    have j: "j < length rs" "j < length ts" and i: "i < length rs" "i < length ts"
      using that assms(3) by simp_all
    have "rs ! i * ts ! i \<le> rs ! j * ts ! j"
      using assms(1,2,4,5) i j that(1)
      by (intro mult_mono) (simp_all add: sorted_nth_mono)
    then show ?thesis using i j by simp
  qed
  then show ?thesis by (simp only: sorted_iff_nth_mono) blast
qed

lemma cache_ln:
  fixes rs ts :: "real list"
  shows "map ln (map2 (\<lambda>r t. exp (- r * t)) rs ts) = map uminus (map2 (*) rs ts)"
  by (simp add: case_prod_beta)

lemma map2_hd_last:
  assumes "xs \<noteq> []" "length xs = length ys"
  shows "hd (map2 f xs ys) = f (hd xs) (hd ys)" "last (map2 f xs ys) = f (last xs) (last ys)"
proof -
  have ys: "ys \<noteq> []" using assms by auto
  have z: "zip xs ys \<noteq> []" using assms ys by (cases xs; cases ys) simp_all
  show "hd (map2 f xs ys) = f (hd xs) (hd ys)"
    using assms ys by (cases xs; cases ys) simp_all
  show "last (map2 f xs ys) = f (last xs) (last ys)"
    using z last_zip [OF assms(1) ys assms(2)] by (simp add: last_map)
qed

lemma discount_factor_mono_cached:
  assumes "constructed c"
    "discount_factors c = Some (map2 (\<lambda>r t. exp (- r * t)) (zero_rates c) (tenors c))"
    "sorted (zero_rates c)" "\<forall>r \<in> set (zero_rates c). 0 \<le> r" "t1 \<le> t2"
  shows "discount_factor c t2 \<le> discount_factor c t1"
proof -
  note cf = constructed_facts [OF assms(1)]
  define ts where "ts = tenors c"
  define rs where "rs = zero_rates c"
  define g where "g = map2 (*) rs ts"
  define G where "G t = (if t \<le> hd ts then hd rs * t
                         else if last ts \<le> t then last g + last rs * (t - last ts)
                         else np_interp t ts g)" for t
  have ts_ne: "ts \<noteq> []" and rs_ne: "rs \<noteq> []" and len: "length rs = length ts"
    and srt: "sorted ts" and hd_pos: "0 < hd ts" and last_pos: "0 < last ts"
    using cf by (simp_all add: ts_def rs_def)
  have ts_pos: "\<forall>t \<in> set ts. 0 \<le> t"
    using srt hd_pos ts_ne by (cases ts) auto
  have rs_nonneg: "\<forall>r \<in> set rs. 0 \<le> r" and rs_srt: "sorted rs"
    using assms(3,4) by (simp_all add: rs_def)
  have h0: "0 \<le> hd rs" and l0: "0 \<le> last rs" using rs_nonneg rs_ne by simp_all
  have g_srt: "sorted g"
    unfolding g_def using rs_srt srt len rs_nonneg ts_pos by (rule sorted_products)
  have g_len: "length g = length ts" by (simp add: g_def len)
  have g_hd: "hd g = hd rs * hd ts" and g_last: "last g = last rs * last ts"
    unfolding g_def using rs_ne len by (rule map2_hd_last)+
  have lo: "hd g \<le> np_interp t ts g" and hi: "np_interp t ts g \<le> last g" for t
    using ts_ne g_len g_srt by (rule np_interp_bounds)+
  have cache_last: "last (map2 (\<lambda>r t. exp (- r * t)) rs ts) = exp (- last g)"
    using map2_hd_last(2) [OF rs_ne len, of "\<lambda>r t. exp (- r * t)"] by (simp add: g_last)
  have DF: "discount_factor c t = exp (- G t)" if "0 < t" for t
  proof -
    let ?ds = "map2 (\<lambda>r t. exp (- r * t)) rs ts"
    have nz: "0 \<notin> set ?ds" by auto
    have "np_interp t ts (map ln ?ds) = - np_interp t ts g"
      unfolding cache_ln g_def [symmetric] using g_len by (rule np_interp_uminus)
    moreover have "np_interp_log t ts (map log_df ?ds) = Some (np_interp t ts (map ln ?ds))"
      unfolding log_df_nonzero [OF nz] using ts_ne by (rule np_interp_log_Some) (simp add: len)
    ultimately have "exp_log (np_interp_log t ts (map log_df ?ds)) = exp (- np_interp t ts g)"
      by (simp add: exp_log_def)
    then show ?thesis
      using that assms(2) cache_last
      unfolding discount_factor_def G_def ts_def [symmetric] rs_def [symmetric]
      by (simp add: exp_add [symmetric] algebra_simps)
  qed
  have G_nonneg: "0 \<le> G t" if "0 < t" for t
  proof -
    have "0 \<le> hd g" using h0 hd_pos by (simp add: g_hd)
    moreover have "0 \<le> last g" using l0 last_pos by (simp add: g_last)
    moreover have "0 \<le> last rs * (t - last ts)" if "last ts \<le> t"
      using l0 that by simp
    ultimately show ?thesis
      using that h0 lo [of t] unfolding G_def by (auto intro: order_trans)
  qed
  have G_mono: "G t1 \<le> G t2" if pos: "0 < t1"
  proof -
    have hl: "hd g \<le> last g" using lo [of 0] hi [of 0] by simp
    show ?thesis
    proof (cases "t1 \<le> hd ts")
      case r1: True
      have a: "G t1 \<le> hd g" using r1 h0 by (simp add: G_def g_hd mult_left_mono)
      show ?thesis
      proof (cases "t2 \<le> hd ts")
        case True
        then show ?thesis using r1 h0 assms(5) by (simp add: G_def mult_left_mono)
      next
        case n1: False
        show ?thesis
        proof (cases "last ts \<le> t2")
          case True
          then have "last g \<le> G t2" using n1 l0 by (simp add: G_def)
          then show ?thesis using a hl by simp
        next
          case False
          then have "G t2 = np_interp t2 ts g" using n1 by (simp add: G_def)
          then show ?thesis using a lo [of t2] by simp
        qed
      qed
    next
      case n1: False
      then have n2: "\<not> t2 \<le> hd ts" using assms(5) by simp
      show ?thesis
      proof (cases "last ts \<le> t1")
        case True
        then have "last ts \<le> t2" using assms(5) by simp
        then show ?thesis using True n1 n2 l0 assms(5) by (simp add: G_def mult_left_mono)
      next
        case m1: False
        then have e1: "G t1 = np_interp t1 ts g" using n1 by (simp add: G_def)
        show ?thesis
        proof (cases "last ts \<le> t2")
          case True
          then have "last g \<le> G t2" using n2 l0 by (simp add: G_def)
          then show ?thesis using e1 hi [of t1] by simp
        next
          case False
          then have "G t2 = np_interp t2 ts g" using n2 by (simp add: G_def)
          moreover have "np_interp t1 ts g \<le> np_interp t2 ts g"
            using ts_ne g_len g_srt assms(5) by (rule np_interp_mono)
          ultimately show ?thesis using e1 by simp
        qed
      qed
    qed
  qed
  show ?thesis
  proof (cases "0 < t1")
    case True
    then have "0 < t2" using assms(5) by simp
    then show ?thesis using DF [OF True] DF [of t2] G_mono [OF True] by simp
  next
    case False
    then have one: "discount_factor c t1 = 1" by (simp add: discount_factor_def)
    show ?thesis
    proof (cases "0 < t2")
      case True
      then show ?thesis using DF [OF True] G_nonneg [OF True] one by simp
    next
      case False
      then show ?thesis using one by (simp add: discount_factor_def)
    qed
  qed
qed


text \<open>
  C4, as the curve has it. \<open>discount_factor 0 = 1\<close> for every curve. The discount factor is
  non-increasing in the tenor for every constructed curve whose stored zero rates are
  non-negative and non-decreasing along the nodes and which either has no cache of discount
  factors or has the cache \<open>exp (- rate * tenor)\<close> of its own nodes (what \<open>from_dataframe\<close>,
  the key-rate shift and the non-parallel shift attach).
\<close>

theorem discount_factor_monotone:
  "discount_factor c 0 = 1
   \<and> (constructed c \<and> sorted (zero_rates c) \<and> (\<forall>r \<in> set (zero_rates c). 0 \<le> r)
       \<and> (discount_factors c = None
           \<or> discount_factors c
               = Some (map2 (\<lambda>r t. exp (- r * t)) (zero_rates c) (tenors c)))
       \<and> t1 \<le> t2
       \<longrightarrow> discount_factor c t2 \<le> discount_factor c t1)"
proof (intro conjI impI)
  show "discount_factor c 0 = 1" by (simp add: discount_factor_def)
next
  assume h: "constructed c \<and> sorted (zero_rates c) \<and> (\<forall>r \<in> set (zero_rates c). 0 \<le> r)
       \<and> (discount_factors c = None
           \<or> discount_factors c
               = Some (map2 (\<lambda>r t. exp (- r * t)) (zero_rates c) (tenors c)))
       \<and> t1 \<le> t2"
  then show "discount_factor c t2 \<le> discount_factor c t1"
    by (elim conjE disjE)
      (erule (4) discount_factor_mono_nocache, erule (4) discount_factor_mono_cached)
qed

theorem discount_factor_monotone_witness:
  "constructed \<lparr>tenors = [1, 2], zero_rates = [1 / 100, 1 / 50], name = Plain ''c'',
                discount_factors = None\<rparr>
   \<and> sorted [1 / 100, 1 / 50 :: real] \<and> list_all ((\<le>) 0) [1 / 100, 1 / 50 :: real]
   \<and> (1::real) \<le> 2
   \<and> discount_factor \<lparr>tenors = [1, 2], zero_rates = [1 / 100, 1 / 50], name = Plain ''c'',
                discount_factors = None\<rparr> 2
       \<le> discount_factor \<lparr>tenors = [1, 2], zero_rates = [1 / 100, 1 / 50], name = Plain ''c'',
                discount_factors = None\<rparr> 1
   \<and> discount_factor \<lparr>tenors = [1, 2], zero_rates = [1 / 100, 1 / 50], name = Plain ''c'',
                discount_factors = None\<rparr> 0 = 1"
proof -
  have h: "constructed \<lparr>tenors = [1, 2], zero_rates = [1 / 100, 1 / 50], name = Plain ''c'',
                discount_factors = None\<rparr>"
    by (simp add: constructed_def)
  show ?thesis
    using h discount_factor_monotone
      [of "\<lparr>tenors = [1, 2], zero_rates = [1 / 100, 1 / 50], name = Plain ''c'',
                discount_factors = None\<rparr>" 1 2]
    by simp
qed

text \<open>
  C4 as stated does not hold: the curve with the nodes \<open>(1, 0.10)\<close> and \<open>(2, 0.01)\<close> has
  non-negative zero rates, and its discount factor rises from tenor 1 to tenor 2.
\<close>

theorem discount_factor_increasing_example:
  "ZeroCurve_init [\<lparr>tenor = 1, rate = 1 / 10\<rparr>, \<lparr>tenor = 2, rate = 1 / 100\<rparr>] (Plain ''c'') None =
     Inr \<lparr>tenors = [1, 2], zero_rates = [1 / 10, 1 / 100], name = Plain ''c'',
          discount_factors = None\<rparr>
   \<and> list_all ((\<le>) 0) [1 / 10, 1 / 100 :: real] \<and> (1::real) \<le> 2
   \<and> discount_factor \<lparr>tenors = [1, 2], zero_rates = [1 / 10, 1 / 100], name = Plain ''c'',
          discount_factors = None\<rparr> 1
       < discount_factor \<lparr>tenors = [1, 2], zero_rates = [1 / 10, 1 / 100], name = Plain ''c'',
          discount_factors = None\<rparr> 2"
  by (simp add: ZeroCurve_init_def discount_factor_def zero_rate_def np_interp_def)

section \<open>Pricing and risk\<close>

lemma apply_key_rate_shift_ok:
  assumes "constructed c"
  shows "apply_key_rate_shift c k s w =
     Inr \<lparr>tenors = tenors c,
          zero_rates = map2 (+) (zero_rates c)
             (map (tent_shift k (s / 10000)
                     (case w of None \<Rightarrow> default_width k | Some v \<Rightarrow> v)) (tenors c)),
          name = KeyRate (name c) k,
          discount_factors = Some (map2 (\<lambda>r t. exp (- r * t))
             (map2 (+) (zero_rates c)
                (map (tent_shift k (s / 10000)
                        (case w of None \<Rightarrow> default_width k | Some v \<Rightarrow> v)) (tenors c)))
             (tenors c))\<rparr>"
proof -
  note cf = constructed_facts [OF assms]
  show ?thesis
    unfolding apply_key_rate_shift_def Let_def
    using cf(1,4,5) by (rule ZeroCurve_init_sorted) (simp_all add: cf(3))
qed

lemma bump_curve_ok:
  assumes "constructed c"
  shows "bump_curve c b =
     Inr \<lparr>tenors = tenors c,
          zero_rates = map2 (\<lambda>d t. - ln d / t)
             (map2 (\<lambda>d t. d * exp (- (b / 10000) * t))
                (map (discount_factor c) (tenors c)) (tenors c)) (tenors c),
          name = Bumped (name c) b,
          discount_factors = Some (map2 (\<lambda>d t. d * exp (- (b / 10000) * t))
                (map (discount_factor c) (tenors c)) (tenors c))\<rparr>"
proof -
  note cf = constructed_facts [OF assms]
  show ?thesis
    unfolding bump_curve_def Let_def
    using cf(1,4,5) by (rule ZeroCurve_init_sorted) simp_all
qed

lemma constructed_shifted:
  "constructed c \<Longrightarrow> apply_key_rate_shift c k s w = Inr c' \<Longrightarrow> constructed c'"
  unfolding apply_key_rate_shift_def Let_def by (rule ZeroCurve_init_constructed)

lemma constructed_bumped:
  "bump_curve c b = Inr c' \<Longrightarrow> constructed c'"
  unfolding bump_curve_def Let_def by (rule ZeroCurve_init_constructed)



lemma year_fraction_act: "year_fraction s e ''ACT/365'' = Inr (actual_365 s e)"
  by (simp add: year_fraction_def upper_def upper_char_def DAYCOUNT_FUNCTIONS_def)

lemma fixed_rows_row:
  assumes "fixed_rows pricer swap schedule = Inr rows" "row \<in> set rows"
  shows "leg row = ''fixed'' \<and> coupon_rate row = fixed_rate swap
     \<and> cashflow row = (if payer swap = ''fixed'' then - 1 else 1)
                        * (notional swap * fixed_rate swap * accrual_factor_col row)
     \<and> present_value row = (if payer swap = ''fixed'' then - 1 else 1)
                        * (notional swap * fixed_rate swap * accrual_factor_col row)
                        * discount_factor_col row"
  using assms
proof (induction schedule arbitrary: rows)
  case Nil
  then show ?case by simp
next
  case (Cons period schedule)
  from Cons.prems(1) obtain rest where rest: "fixed_rows pricer swap schedule = Inr rest"
    by (auto simp: year_fraction_act Let_def split: sum.splits)
  from Cons.prems(1) rest obtain r0 where rows: "rows = r0 # rest"
    and r0: "leg r0 = ''fixed''" "coupon_rate r0 = fixed_rate swap"
      "cashflow r0 = (if payer swap = ''fixed'' then - 1 else 1)
                        * (notional swap * fixed_rate swap * accrual_factor_col r0)"
      "present_value r0 = (if payer swap = ''fixed'' then - 1 else 1)
                        * (notional swap * fixed_rate swap * accrual_factor_col r0)
                        * discount_factor_col r0"
    by (auto simp: year_fraction_act Let_def)
  show ?case
  proof (cases "row = r0")
    case True
    then show ?thesis using r0 by simp
  next
    case False
    then have "row \<in> set rest" using Cons.prems(2) rows by simp
    then show ?thesis using Cons.IH [OF rest] by simp
  qed
qed

lemma floating_rows_row:
  assumes "floating_rows pricer swap schedule = Inr rows" "row \<in> set rows"
  shows "leg row = ''floating''
     \<and> cashflow row = (if payer swap = ''fixed'' then 1 else - 1)
                        * (notional swap * coupon_rate row * accrual_factor_col row)
     \<and> present_value row = (if payer swap = ''fixed'' then 1 else - 1)
                        * (notional swap * coupon_rate row * accrual_factor_col row)
                        * discount_factor_col row"
  using assms
proof (induction schedule arbitrary: rows)
  case Nil
  then show ?case by simp
next
  case (Cons period schedule)
  from Cons.prems(1) obtain rest where rest: "floating_rows pricer swap schedule = Inr rest"
    by (auto simp: year_fraction_act Let_def split: sum.splits)
  from Cons.prems(1) rest obtain r0 where rows: "rows = r0 # rest"
    and r0: "leg r0 = ''floating''"
      "cashflow r0 = (if payer swap = ''fixed'' then 1 else - 1)
                        * (notional swap * coupon_rate r0 * accrual_factor_col r0)"
      "present_value r0 = (if payer swap = ''fixed'' then 1 else - 1)
                        * (notional swap * coupon_rate r0 * accrual_factor_col r0)
                        * discount_factor_col r0"
    by (auto simp: year_fraction_act Let_def split: sum.splits)
  show ?case
  proof (cases "row = r0")
    case True
    then show ?thesis using r0 by simp
  next
    case False
    then have "row \<in> set rest" using Cons.prems(2) rows by simp
    then show ?thesis using Cons.IH [OF rest] by simp
  qed
qed

lemma price_rows:
  assumes "price pricer swap = Inr res" "row \<in> set (cashflows res)"
  shows "(\<exists>schedule rows. fixed_rows pricer swap schedule = Inr rows \<and> row \<in> set rows)
       \<or> (\<exists>schedule rows. floating_rows pricer swap schedule = Inr rows \<and> row \<in> set rows)"
proof -
  from assms(1) obtain cfs where cfs: "build_cashflows pricer swap = Inr cfs"
    and res: "cashflows res = sort_key (\<lambda>r. date_key (period_end r)) cfs"
    by (auto simp: price_def Let_def split: sum.splits if_splits)
  from cfs obtain fl gl where fl: "build_fixed_cashflows pricer swap = Inr fl"
    and gl: "build_floating_cashflows pricer swap = Inr gl" and cat: "cfs = fl @ gl"
    by (auto simp: build_cashflows_def split: sum.splits)
  from fl obtain s1 where "fixed_rows pricer swap s1 = Inr fl"
    by (auto simp: build_fixed_cashflows_def split: sum.splits)
  moreover from gl obtain s2 where "floating_rows pricer swap s2 = Inr gl"
    by (auto simp: build_floating_cashflows_def split: sum.splits)
  moreover have "row \<in> set fl \<or> row \<in> set gl"
    using assms(2) res cat by simp
  ultimately show ?thesis by blast
qed


lemma fixed_rows_total:
  "\<exists>rows. fixed_rows pricer swap schedule = Inr rows \<and> length rows = length schedule"
proof (induction schedule)
  case Nil
  then show ?case by simp
next
  case (Cons period schedule)
  then obtain rest where "fixed_rows pricer swap schedule = Inr rest"
    "length rest = length schedule" by blast
  then show ?case by (simp add: year_fraction_act Let_def)
qed

lemma floating_rows_length:
  "floating_rows pricer swap schedule = Inr rows \<Longrightarrow> length rows = length schedule"
proof (induction schedule arbitrary: rows)
  case Nil
  then show ?case by simp
next
  case (Cons period schedule)
  from Cons.prems obtain rest where rest: "floating_rows pricer swap schedule = Inr rest"
    by (auto simp: year_fraction_act Let_def split: sum.splits)
  with Cons.prems have "length rows = Suc (length rest)"
    by (auto simp: year_fraction_act Let_def split: sum.splits)
  then show ?case using Cons.IH [OF rest] by simp
qed

lemma forward_rate_transfer:
  assumes "forward_rate c s e = Inr v"
    "discount_factor c e \<noteq> 0 \<Longrightarrow> discount_factor c' e \<noteq> 0"
  shows "\<exists>v'. forward_rate c' s e = Inr v'"
  using assms by (auto simp: forward_rate_def Let_def split: if_splits)

lemma floating_rows_transfer:
  assumes "floating_rows pricer swap schedule = Inr rows"
    "\<And>t. discount_factor (forward_curve pricer) t \<noteq> 0
           \<Longrightarrow> discount_factor (forward_curve pricer') t \<noteq> 0"
  shows "\<exists>rows'. floating_rows pricer' swap schedule = Inr rows'"
  using assms(1)
proof (induction schedule arbitrary: rows)
  case Nil
  then show ?case by simp
next
  case (Cons period schedule)
  from Cons.prems obtain rest v where rest: "floating_rows pricer swap schedule = Inr rest"
    and v: "forward_rate (forward_curve pricer)
              (actual_365 (valuation_date swap) (start period))
              (actual_365 (valuation_date swap) (finish period)) = Inr v"
    by (auto simp: year_fraction_act Let_def split: sum.splits)
  from forward_rate_transfer [OF v assms(2)] obtain v' where
    "forward_rate (forward_curve pricer')
              (actual_365 (valuation_date swap) (start period))
              (actual_365 (valuation_date swap) (finish period)) = Inr v'" by blast
  moreover from Cons.IH [OF rest] obtain rest' where
    "floating_rows pricer' swap schedule = Inr rest'" by blast
  ultimately show ?case by (simp add: year_fraction_act Let_def)
qed

lemma price_transfer:
  assumes "price pricer swap = Inr res"
    "\<And>t. discount_factor (forward_curve pricer) t \<noteq> 0
           \<Longrightarrow> discount_factor (forward_curve pricer') t \<noteq> 0"
  shows "\<exists>res'. price pricer' swap = Inr res'"
proof -
  from assms(1) obtain cfs where cfs: "build_cashflows pricer swap = Inr cfs" "cfs \<noteq> []"
    by (auto simp: price_def Let_def split: sum.splits if_splits)
  from cfs obtain fl gl where fl: "build_fixed_cashflows pricer swap = Inr fl"
    and gl: "build_floating_cashflows pricer swap = Inr gl" and cat: "cfs = fl @ gl"
    by (auto simp: build_cashflows_def split: sum.splits)
  from fl obtain s1 where s1: "generate_schedule (effective_date swap) (maturity_years swap)
             (fixed_leg_frequency swap) (fixed_leg_daycount swap) = Inr s1"
    and f1: "fixed_rows pricer swap s1 = Inr fl"
    by (auto simp: build_fixed_cashflows_def split: sum.splits)
  from gl obtain s2 where s2: "generate_schedule (effective_date swap) (maturity_years swap)
             (floating_leg_frequency swap) (floating_leg_daycount swap) = Inr s2"
    and g1: "floating_rows pricer swap s2 = Inr gl"
    by (auto simp: build_floating_cashflows_def split: sum.splits)
  obtain fl' where fl': "fixed_rows pricer' swap s1 = Inr fl'" "length fl' = length s1"
    using fixed_rows_total by blast
  obtain gl' where gl': "floating_rows pricer' swap s2 = Inr gl'"
    using floating_rows_transfer [OF g1 assms(2)] by blast
  have lens: "length fl = length s1" "length gl = length s2" "length gl' = length s2"
    using fixed_rows_total [of pricer swap s1] f1 floating_rows_length [OF g1]
      floating_rows_length [OF gl'] by auto
  have "fl' @ gl' \<noteq> []" using cfs(2) cat lens fl'(2) by auto
  moreover have "build_cashflows pricer' swap = Inr (fl' @ gl')"
    using s1 s2 fl'(1) gl'
    by (simp add: build_cashflows_def build_fixed_cashflows_def build_floating_cashflows_def)
  ultimately show ?thesis by (simp add: price_def Let_def)
qed

lemma shifted_discount_factor_nonzero:
  assumes "constructed c" "apply_key_rate_shift c k s w = Inr c'"
  shows "discount_factor c' t \<noteq> 0"
proof -
  obtain rs where ds: "discount_factors c' = Some (map2 (\<lambda>r t. exp (- r * t)) rs (tenors c))"
    using assms(2) unfolding apply_key_rate_shift_ok [OF assms(1)] by auto
  have "0 \<notin> set (map2 (\<lambda>r t. exp (- r * t)) rs (tenors c))" by auto
  then show ?thesis
    using constructed_shifted [OF assms] ds by (intro discount_factor_nonzero) simp_all
qed

lemma bumped_discount_factor_nonzero:
  assumes "constructed c" "bump_curve c b = Inr c'"
    "list_all (\<lambda>t. discount_factor c t \<noteq> 0) (tenors c)"
  shows "discount_factor c' t \<noteq> 0"
proof -
  let ?ds = "map2 (\<lambda>d t. d * exp (- (b / 10000) * t))
                (map (discount_factor c) (tenors c)) (tenors c)"
  have ds: "discount_factors c' = Some ?ds"
    using assms(2) unfolding bump_curve_ok [OF assms(1)] by auto
  have "0 \<notin> set ?ds"
  proof
    assume "0 \<in> set ?ds"
    then obtain d u where "(d, u) \<in> set (zip (map (discount_factor c) (tenors c)) (tenors c))"
      "d * exp (- (b / 10000) * u) = 0" by auto
    then have "d \<in> set (map (discount_factor c) (tenors c))" "d = 0"
      by (auto dest: set_zip_leftD)
    then show False using assms(3) by (auto simp: list_all_iff)
  qed
  then show ?thesis
    using constructed_bumped [OF assms(2)] ds by (intro discount_factor_nonzero) simp_all
qed

text \<open>
  On a curve with distinct tenors the value at a node is the cached discount factor of that
  node (the first node apart, where the stored rate is used), so a parallel bump of the curve
  has a zero discount factor only where the curve itself has one.
\<close>

lemma sorted_bracket:
  fixes xs :: "real list"
  assumes "sorted xs" "xs \<noteq> []" "hd xs \<le> x" "x < last xs"
  shows "\<exists>j. Suc j < length xs \<and> xs ! j \<le> x \<and> x < xs ! Suc j"
  using assms
proof (induction xs)
  case Nil
  then show ?case by simp
next
  case (Cons a xs)
  show ?case
  proof (cases xs)
    case Nil
    then show ?thesis using Cons.prems by simp
  next
    case (Cons b ys)
    show ?thesis
    proof (cases "b \<le> x")
      case True
      have "\<exists>j. Suc j < length xs \<and> xs ! j \<le> x \<and> x < xs ! Suc j"
        using Cons.prems True Cons by (intro Cons.IH) simp_all
      then obtain j where "Suc j < length xs" "xs ! j \<le> x" "x < xs ! Suc j" by blast
      then have "Suc (Suc j) < length (a # xs) \<and> (a # xs) ! Suc j \<le> x \<and> x < (a # xs) ! Suc (Suc j)"
        by simp
      then show ?thesis by blast
    next
      case False
      then have "Suc 0 < length (a # xs) \<and> (a # xs) ! 0 \<le> x \<and> x < (a # xs) ! Suc 0"
        using Cons Cons.prems by simp
      then show ?thesis by blast
    qed
  qed
qed

lemma interp_scan_log_bracket:
  assumes "sorted (map fst ps)" "Suc j < length ps" "fst (ps ! j) \<le> x" "x < fst (ps ! Suc j)"
  shows "interp_scan_log x ps = None \<longleftrightarrow>
           snd (ps ! j) = None \<or> (fst (ps ! j) \<noteq> x \<and> snd (ps ! Suc j) = None)"
  using assms
proof (induction x ps arbitrary: j rule: interp_scan_log.induct)
  case (1 x)
  then show ?case by simp
next
  case (2 x a b)
  then show ?case by simp
next
  case (3 x a b c d ps)
  show ?case
  proof (cases j)
    case 0
    then have "a \<le> x" "x < c" using "3.prems"(3,4) by simp_all
    then show ?thesis using 0 by (auto split: option.splits)
  next
    case (Suc j')
    have j': "Suc j' < length ((c, d) # ps)" using "3.prems"(2) Suc by simp
    have "sorted (c # map fst ps)" using "3.prems"(1) by simp
    then have "c \<le> (c # map fst ps) ! j'"
      using j' by (intro sorted_Cons_le_nth) simp_all
    moreover have "(c # map fst ps) ! j' = fst (((c, d) # ps) ! j')"
      using j' nth_map [of j' "(c, d) # ps" fst] by simp
    ultimately have "c \<le> fst (((c, d) # ps) ! j')" by simp
    then have cx: "c \<le> x" using "3.prems"(3) Suc by simp
    have "interp_scan_log x ((c, d) # ps) = None \<longleftrightarrow>
           snd (((c, d) # ps) ! j') = None
            \<or> (fst (((c, d) # ps) ! j') \<noteq> x \<and> snd (((c, d) # ps) ! Suc j') = None)"
      using "3.prems" Suc by (intro "3.IH" [OF cx]) simp_all
    then show ?thesis using cx Suc by simp
  qed
qed

lemma np_interp_log_bracket:
  assumes "sorted xp" "length fp = length xp" "Suc j < length xp" "xp ! j \<le> x" "x < xp ! Suc j"
  shows "np_interp_log x xp fp = None \<longleftrightarrow> fp ! j = None \<or> (xp ! j \<noteq> x \<and> fp ! Suc j = None)"
proof -
  have pne: "xp \<noteq> []" using assms(3) by auto
  have ne: "zip xp fp \<noteq> []" using pne assms(2) by (cases xp; cases fp) simp_all
  have mf: "map fst (zip xp fp) = xp" using assms(2) by simp
  have h: "fst (hd (zip xp fp)) = hd xp" using ne mf by (metis hd_map)
  have l: "fst (last (zip xp fp)) = last xp" using ne mf by (metis last_map)
  have srt: "sorted (map fst (zip xp fp))" using assms(1) mf by simp
  have jl: "Suc j < length (zip xp fp)" using assms(2,3) by simp
  have n: "zip xp fp ! j = (xp ! j, fp ! j)" "zip xp fp ! Suc j = (xp ! Suc j, fp ! Suc j)"
    using assms(2,3) by simp_all
  have "hd xp \<le> xp ! j"
  proof (cases xp)
    case Nil
    then show ?thesis using pne by simp
  next
    case (Cons a list)
    then show ?thesis using sorted_Cons_le_nth [of a list j] assms(1,3) by simp
  qed
  then have nh: "\<not> x < hd xp" using assms(4) by simp
  have "xp ! Suc j \<le> last xp"
    using assms(1,3) by (intro sorted_le_last) simp_all
  then have nl: "\<not> last xp < x" using assms(5) by simp
  have "interp_scan_log x (zip xp fp) = None \<longleftrightarrow>
           snd (zip xp fp ! j) = None
            \<or> (fst (zip xp fp ! j) \<noteq> x \<and> snd (zip xp fp ! Suc j) = None)"
    using srt jl by (rule interp_scan_log_bracket) (simp_all add: n assms(4,5))
  then show ?thesis using nh nl ne h l n by (simp add: np_interp_log_def Let_def)
qed

lemma last_nth_length:
  assumes "length ds = length ts" "ts \<noteq> []"
  shows "last ds = ds ! (length ts - 1)"
proof -
  have "ds \<noteq> []" using assms by auto
  then show ?thesis using assms(1) by (simp add: last_conv_nth)
qed

lemma exp_log_zero_iff: "exp_log l = 0 \<longleftrightarrow> l = None"
  by (cases l) (simp_all add: exp_log_def)

lemma discount_factor_interior:
  assumes "constructed c" "discount_factors c = Some ds" "Suc j < length (tenors c)"
    "hd (tenors c) < t" "t < last (tenors c)" "tenors c ! j \<le> t" "t < tenors c ! Suc j"
  shows "discount_factor c t = 0 \<longleftrightarrow> ds ! j = 0 \<or> (tenors c ! j \<noteq> t \<and> ds ! Suc j = 0)"
proof -
  note cf = constructed_facts [OF assms(1)]
  have len: "length ds = length (tenors c)" using assms(1,2) by (simp add: constructed_def)
  have t0: "\<not> t \<le> 0" using cf(5) assms(4) by simp
  have df: "discount_factor c t = exp_log (np_interp_log t (tenors c) (map log_df ds))"
    using t0 assms(2,4,5) by (simp add: discount_factor_def)
  have "np_interp_log t (tenors c) (map log_df ds) = None \<longleftrightarrow>
          map log_df ds ! j = None \<or> (tenors c ! j \<noteq> t \<and> map log_df ds ! Suc j = None)"
    using cf(4) _ assms(3,6,7) by (rule np_interp_log_bracket) (simp add: len)
  then show ?thesis
    using assms(3) len by (simp add: df exp_log_zero_iff log_df_def)
qed

lemma node_discount_factor_nonzero:
  assumes "constructed c" "distinct (tenors c)" "discount_factors c = Some ds"
    "i < length (tenors c)" "ds ! i \<noteq> 0"
  shows "discount_factor c (tenors c ! i) \<noteq> 0"
proof -
  note cf = constructed_facts [OF assms(1)]
  have len: "length ds = length (tenors c)" using assms(1,3) by (simp add: constructed_def)
  define t where "t = tenors c ! i"
  have le_last: "t \<le> last (tenors c)"
    unfolding t_def using cf(4) assms(4) by (intro sorted_le_last) simp_all
  have lastn: "last (tenors c) = tenors c ! (length (tenors c) - 1)"
    using cf(1) by (rule last_conv_nth)
  have lastd: "last ds = ds ! (length (tenors c) - 1)"
    using len cf(1) by (rule last_nth_length)
  show ?thesis
  proof (cases "t \<le> hd (tenors c) \<or> t \<le> 0")
    case True
    then show ?thesis using assms(3) by (auto simp: discount_factor_def t_def [symmetric])
  next
    case False
    show ?thesis
    proof (cases "last (tenors c) \<le> t")
      case True
      then have "tenors c ! i = tenors c ! (length (tenors c) - 1)"
        using le_last lastn by (simp add: t_def)
      then have "i = length (tenors c) - 1"
        using assms(2,4) cf(1) by (simp add: nth_eq_iff_index_eq)
      then have "last ds \<noteq> 0" using assms(5) lastd by simp
      then show ?thesis
        using False True assms(3) by (simp add: discount_factor_def t_def [symmetric])
    next
      case F2: False
      have si: "Suc i < length (tenors c)"
      proof (rule ccontr)
        assume "\<not> Suc i < length (tenors c)"
        then have "i = length (tenors c) - 1" using assms(4) by simp
        then show False using F2 lastn by (simp add: t_def)
      qed
      have "tenors c ! i \<le> tenors c ! Suc i"
        using cf(4) si by (simp add: sorted_iff_nth_mono)
      moreover have "tenors c ! i \<noteq> tenors c ! Suc i"
        using assms(2) si by (simp add: nth_eq_iff_index_eq)
      ultimately have lt: "t < tenors c ! Suc i" by (simp add: t_def)
      have "discount_factor c t = 0 \<longleftrightarrow> ds ! i = 0 \<or> (tenors c ! i \<noteq> t \<and> ds ! Suc i = 0)"
        using assms(1,3) si _ _ _ lt
        by (rule discount_factor_interior) (use False F2 in \<open>simp_all add: t_def\<close>)
      then show ?thesis using assms(5) by (simp add: t_def)
    qed
  qed
qed

lemma bumped_discount_factor_transfer:
  assumes "constructed c" "distinct (tenors c)" "bump_curve c b = Inr c'"
    "discount_factor c t \<noteq> 0"
  shows "discount_factor c' t \<noteq> 0"
proof (cases "discount_factors c")
  case None
  have "discount_factor c u \<noteq> 0" for u
    using assms(1) None by (intro discount_factor_nonzero) simp_all
  then have "list_all (\<lambda>t. discount_factor c t \<noteq> 0) (tenors c)" by (simp add: list_all_iff)
  with assms(1,3) show ?thesis by (rule bumped_discount_factor_nonzero)
next
  case (Some ds)
  note cf = constructed_facts [OF assms(1)]
  have len: "length ds = length (tenors c)" using assms(1) Some by (simp add: constructed_def)
  define ds' where "ds' = map2 (\<lambda>d t. d * exp (- (b / 10000) * t))
                (map (discount_factor c) (tenors c)) (tenors c)"
  have c': "discount_factors c' = Some ds'" "tenors c' = tenors c"
    using assms(3) unfolding bump_curve_ok [OF assms(1)] ds'_def by auto
  have con': "constructed c'" using assms(3) by (rule constructed_bumped)
  have len': "length ds' = length (tenors c)" by (simp add: ds'_def)
  have nth': "ds' ! i = discount_factor c (tenors c ! i) * exp (- (b / 10000) * tenors c ! i)"
    if "i < length (tenors c)" for i
    using that by (simp add: ds'_def)
  have node: "ds' ! i \<noteq> 0" if "i < length (tenors c)" "ds ! i \<noteq> 0" for i
    using node_discount_factor_nonzero [OF assms(1,2) Some that] nth' [OF that(1)] by simp
  show ?thesis
  proof (cases "t \<le> hd (tenors c) \<or> t \<le> 0")
    case True
    then show ?thesis using c' by (auto simp: discount_factor_def)
  next
    case False
    show ?thesis
    proof (cases "last (tenors c) \<le> t")
      case True
      have n1: "length (tenors c) - 1 < length (tenors c)" using cf(1) by simp
      have "discount_factor c t = last ds * exp (- last (zero_rates c) * (t - last (tenors c)))"
        using False True Some by (simp add: discount_factor_def)
      then have "last ds \<noteq> 0" using assms(4) by auto
      then have "ds ! (length (tenors c) - 1) \<noteq> 0"
        using last_nth_length [OF len cf(1)] by simp
      from node [OF n1 this] have "last ds' \<noteq> 0"
        using last_nth_length [OF len' cf(1)] by simp
      then show ?thesis using False True c' by (simp add: discount_factor_def)
    next
      case F2: False
      obtain j where j: "Suc j < length (tenors c)" "tenors c ! j \<le> t" "t < tenors c ! Suc j"
        using sorted_bracket [OF cf(4,1), of t] False F2 by auto
      have a: "discount_factor c t = 0 \<longleftrightarrow> ds ! j = 0 \<or> (tenors c ! j \<noteq> t \<and> ds ! Suc j = 0)"
        using assms(1) Some j(1) _ _ j(2,3)
        by (rule discount_factor_interior) (use False F2 in simp_all)
      have b: "discount_factor c' t = 0 \<longleftrightarrow> ds' ! j = 0 \<or> (tenors c' ! j \<noteq> t \<and> ds' ! Suc j = 0)"
        using con' c'(1) by (rule discount_factor_interior) (use False F2 j c'(2) in simp_all)
      have "ds ! j \<noteq> 0" "tenors c ! j = t \<or> ds ! Suc j \<noteq> 0" using a assms(4) by auto
      then have "ds' ! j \<noteq> 0" "tenors c ! j = t \<or> ds' ! Suc j \<noteq> 0"
        using node j(1) by auto
      then show ?thesis using b c'(2) by auto
    qed
  qed
qed

lemma key_rate_loop_Inr:
  assumes "key_rate_loop swap dc fc b base kts acc = Inr m"
  shows "(\<forall>k \<in> set kts. \<exists>sd sf sp.
            apply_key_rate_shift dc k b None = Inr sd \<and> apply_key_rate_shift fc k b None = Inr sf
            \<and> price \<lparr>discount_curve = sd, forward_curve = sf\<rparr> swap = Inr sp
            \<and> fmlookup m k = Some (npv sp - base))
       \<and> (\<forall>k. k \<notin> set kts \<longrightarrow> fmlookup m k = fmlookup acc k)"
  using assms
proof (induction kts arbitrary: acc)
  case Nil
  then show ?case by simp
next
  case (Cons k0 ks)
  from Cons.prems obtain sd sf sp where
    sd: "apply_key_rate_shift dc k0 b None = Inr sd"
    and sf: "apply_key_rate_shift fc k0 b None = Inr sf"
    and sp: "price \<lparr>discount_curve = sd, forward_curve = sf\<rparr> swap = Inr sp"
    and loop: "key_rate_loop swap dc fc b base ks (fmupd k0 (npv sp - base) acc) = Inr m"
    by (auto split: sum.splits)
  note ih = Cons.IH [OF loop]
  have head: "\<exists>sd sf sp.
            apply_key_rate_shift dc k0 b None = Inr sd \<and> apply_key_rate_shift fc k0 b None = Inr sf
            \<and> price \<lparr>discount_curve = sd, forward_curve = sf\<rparr> swap = Inr sp
            \<and> fmlookup m k0 = Some (npv sp - base)"
  proof (cases "k0 \<in> set ks")
    case True
    then show ?thesis using ih by blast
  next
    case False
    then have "fmlookup m k0 = Some (npv sp - base)" using ih by simp
    then show ?thesis using sd sf sp by blast
  qed
  have other: "fmlookup m k = fmlookup acc k" if "k \<notin> set (k0 # ks)" for k
    using that ih by simp
  show ?case using head ih other by auto
qed

lemma key_rate_loop_returns:
  assumes "\<forall>k \<in> set kts. \<exists>sd sf sp.
            apply_key_rate_shift dc k b None = Inr sd \<and> apply_key_rate_shift fc k b None = Inr sf
            \<and> price \<lparr>discount_curve = sd, forward_curve = sf\<rparr> swap = Inr sp"
  shows "\<exists>m. key_rate_loop swap dc fc b base kts acc = Inr m"
  using assms
proof (induction kts arbitrary: acc)
  case Nil
  then show ?case by simp
next
  case (Cons k0 ks)
  from Cons.prems obtain sd sf sp where
    "apply_key_rate_shift dc k0 b None = Inr sd" "apply_key_rate_shift fc k0 b None = Inr sf"
    "price \<lparr>discount_curve = sd, forward_curve = sf\<rparr> swap = Inr sp"
    by auto
  moreover have "\<exists>m. key_rate_loop swap dc fc b base ks (fmupd k0 (npv sp - base) acc) = Inr m"
    using Cons.prems by (intro Cons.IH) simp
  ultimately show ?case by simp
qed

lemma key_rate_buckets_price:
  assumes "constructed dc" "constructed fc"
    "price \<lparr>discount_curve = dc, forward_curve = fc\<rparr> swap = Inr base"
  shows "\<exists>sd sf sp.
            apply_key_rate_shift dc k b None = Inr sd \<and> apply_key_rate_shift fc k b None = Inr sf
            \<and> price \<lparr>discount_curve = sd, forward_curve = sf\<rparr> swap = Inr sp"
proof -
  obtain sd where sd: "apply_key_rate_shift dc k b None = Inr sd"
    using apply_key_rate_shift_ok [OF assms(1)] by blast
  obtain sf where sf: "apply_key_rate_shift fc k b None = Inr sf"
    using apply_key_rate_shift_ok [OF assms(2)] by blast
  have "discount_factor (forward_curve \<lparr>discount_curve = sd, forward_curve = sf\<rparr>) t \<noteq> 0" for t
    using shifted_discount_factor_nonzero [OF assms(2) sf] by simp
  from price_transfer [OF assms(3) this]
  obtain sp where "price \<lparr>discount_curve = sd, forward_curve = sf\<rparr> swap = Inr sp" by blast
  then show ?thesis using sd sf by blast
qed

lemma tent_shift_formula:
  "tent_shift k (s / 10000) (case w of None \<Rightarrow> default_width k | Some v \<Rightarrow> v) t =
     (if \<bar>t - k\<bar> \<le> (case w of None \<Rightarrow> (if k < 1 then 1 else if k \<le> 5 then 2 else 3) | Some v \<Rightarrow> v)
      then s * (1 - \<bar>t - k\<bar>
                 / (case w of None \<Rightarrow> (if k < 1 then 1 else if k \<le> 5 then 2 else 3) | Some v \<Rightarrow> v))
           / 10000
      else 0)"
  by (simp add: tent_shift_def default_width_def Let_def split: option.splits)

lemma apply_key_rate_shift_nodes:
  assumes "constructed c"
  shows "\<exists>c'. apply_key_rate_shift c k s w = Inr c' \<and> tenors c' = tenors c
     \<and> length (zero_rates c') = length (tenors c)
     \<and> (\<forall>i<length (tenors c). zero_rates c' ! i = zero_rates c ! i +
          (if \<bar>tenors c ! i - k\<bar>
                \<le> (case w of None \<Rightarrow> (if k < 1 then 1 else if k \<le> 5 then 2 else 3) | Some v \<Rightarrow> v)
           then s * (1 - \<bar>tenors c ! i - k\<bar>
                 / (case w of None \<Rightarrow> (if k < 1 then 1 else if k \<le> 5 then 2 else 3) | Some v \<Rightarrow> v))
                / 10000
           else 0))"
proof -
  note cf = constructed_facts [OF assms]
  show ?thesis
    unfolding apply_key_rate_shift_ok [OF assms]
    by (simp add: cf(3) tent_shift_formula [symmetric])
qed


lemmas eval_defs = generate_schedule_def py_round_def add_months_def days_in_month_def
      year_fraction_def upper_def upper_char_def DAYCOUNT_FUNCTIONS_def thirty_360_def
      actual_365_def toordinal_def days_before_year_def days_before_month_def is_leap_def
      build_fixed_cashflows_def build_floating_cashflows_def build_cashflows_def price_def
      forward_rate_def discount_factor_def zero_rate_def np_interp_def date_key_def Let_def

lemma price0:
  "price \<lparr>discount_curve = c0, forward_curve = c0\<rparr> swap0 = Inr pricing0"
  by (simp add: swap0_def c0_def pricing0_def fixed_row0_def floating_row0_def eval_defs ln_div)

lemma price0_bad_frequency:
  "price \<lparr>discount_curve = c0, forward_curve = c0\<rparr> (swap0\<lparr>fixed_leg_frequency := 0\<rparr>) =
     Inl (ValueError ''Payments per year must be positive'')"
  by (simp add: swap0_def c0_def eval_defs)

lemma c0_constructed: "constructed c0"
  by (simp add: c0_def constructed_def)

lemma c0_nodes_nonzero: "list_all (\<lambda>t. discount_factor c0 t \<noteq> 0) (tenors c0)"
  by (simp add: c0_def discount_factor_def)

text \<open>
  C9, as the pricer has it. Every row of the priced cashflow table belongs to the fixed or to
  the floating leg, and its cashflow is \<open>direction * (notional * coupon_rate * accrual_factor)\<close>,
  its present value that times the discount factor, where \<open>direction\<close> is \<open>-1\<close> when the
  row's leg is the one the holder pays (the fixed leg for a fixed payer, the floating leg
  otherwise) and \<open>+1\<close> when it is received; so for one payer side the two legs carry opposite
  directions. The cashflow has the sign \<open>direction\<close> whenever the amount
  \<open>notional * coupon_rate * accrual_factor\<close> is positive, and so has the present value when
  the discount factor is positive too.
\<close>

theorem cashflow_direction:
  "price pricer swap = Inr res \<and> row \<in> set (cashflows res) \<longrightarrow>
     (leg row = ''fixed'' \<or> leg row = ''floating'')
     \<and> cashflow row =
         (if (leg row = ''fixed'') = (payer swap = ''fixed'') then - 1 else 1)
           * (notional swap * coupon_rate row * accrual_factor_col row)
     \<and> present_value row =
         (if (leg row = ''fixed'') = (payer swap = ''fixed'') then - 1 else 1)
           * (notional swap * coupon_rate row * accrual_factor_col row)
           * discount_factor_col row
     \<and> (0 < notional swap * coupon_rate row * accrual_factor_col row \<longrightarrow>
           sgn (cashflow row)
             = (if (leg row = ''fixed'') = (payer swap = ''fixed'') then - 1 else 1))
     \<and> (0 < notional swap * coupon_rate row * accrual_factor_col row
          \<and> 0 < discount_factor_col row \<longrightarrow>
           sgn (present_value row)
             = (if (leg row = ''fixed'') = (payer swap = ''fixed'') then - 1 else 1))"
proof (intro impI)
  assume h: "price pricer swap = Inr res \<and> row \<in> set (cashflows res)"
  define D :: real where "D = (if (leg row = ''fixed'') = (payer swap = ''fixed'') then - 1 else 1)"
  define amt where "amt = notional swap * coupon_rate row * accrual_factor_col row"
  have D: "D = 1 \<or> D = - 1" by (simp add: D_def)
  have fact: "(leg row = ''fixed'' \<or> leg row = ''floating'')
     \<and> cashflow row = D * amt \<and> present_value row = D * amt * discount_factor_col row"
  proof -
    from h have p: "price pricer swap = Inr res" and r: "row \<in> set (cashflows res)"
      by simp_all
    from price_rows [OF p r] show ?thesis
    proof (elim disjE exE conjE)
      fix schedule rows
      assume "fixed_rows pricer swap schedule = Inr rows" "row \<in> set rows"
      from fixed_rows_row [OF this] show ?thesis
        unfolding D_def amt_def by simp
    next
      fix schedule rows
      assume "floating_rows pricer swap schedule = Inr rows" "row \<in> set rows"
      from floating_rows_row [OF this] show ?thesis
        unfolding D_def amt_def by simp
    qed
  qed
  have s1: "sgn (cashflow row) = D" if "0 < amt"
    using fact that D by (auto simp: sgn_mult)
  have s2: "sgn (present_value row) = D" if "0 < amt" "0 < discount_factor_col row"
    using fact that D by (auto simp: sgn_mult)
  show "(leg row = ''fixed'' \<or> leg row = ''floating'')
     \<and> cashflow row =
         (if (leg row = ''fixed'') = (payer swap = ''fixed'') then - 1 else 1)
           * (notional swap * coupon_rate row * accrual_factor_col row)
     \<and> present_value row =
         (if (leg row = ''fixed'') = (payer swap = ''fixed'') then - 1 else 1)
           * (notional swap * coupon_rate row * accrual_factor_col row)
           * discount_factor_col row
     \<and> (0 < notional swap * coupon_rate row * accrual_factor_col row \<longrightarrow>
           sgn (cashflow row)
             = (if (leg row = ''fixed'') = (payer swap = ''fixed'') then - 1 else 1))
     \<and> (0 < notional swap * coupon_rate row * accrual_factor_col row
          \<and> 0 < discount_factor_col row \<longrightarrow>
           sgn (present_value row)
             = (if (leg row = ''fixed'') = (payer swap = ''fixed'') then - 1 else 1))"
    using fact s1 s2 unfolding D_def [symmetric] amt_def [symmetric] by blast
qed


theorem cashflow_direction_witness:
  "price \<lparr>discount_curve = c0, forward_curve = c0\<rparr> swap0 = Inr pricing0
   \<and> fixed_row0 \<in> set (cashflows pricing0) \<and> floating_row0 \<in> set (cashflows pricing0)
   \<and> 0 < notional swap0 * coupon_rate fixed_row0 * accrual_factor_col fixed_row0
   \<and> 0 < discount_factor_col fixed_row0
   \<and> 0 < notional swap0 * coupon_rate floating_row0 * accrual_factor_col floating_row0
   \<and> 0 < discount_factor_col floating_row0
   \<and> payer swap0 = ''fixed''
   \<and> sgn (cashflow fixed_row0) = - 1 \<and> sgn (present_value fixed_row0) = - 1
   \<and> sgn (cashflow floating_row0) = 1 \<and> sgn (present_value floating_row0) = 1"
  using cashflow_direction
      [of "\<lparr>discount_curve = c0, forward_curve = c0\<rparr>" swap0 pricing0 fixed_row0]
    cashflow_direction
      [of "\<lparr>discount_curve = c0, forward_curve = c0\<rparr>" swap0 pricing0 floating_row0]
    price0
  by (simp add: swap0_def pricing0_def fixed_row0_def floating_row0_def)

text \<open>
  C9 as stated does not hold: with a negative fixed rate the row of the fixed leg, which the
  fixed payer pays, carries a positive cashflow.
\<close>

theorem negative_fixed_rate_paid_leg_positive:
  "price \<lparr>discount_curve = c0, forward_curve = c0\<rparr> (swap0\<lparr>fixed_rate := - (1 / 100)\<rparr>) =
     Inr \<lparr>cashflows =
            [fixed_row0\<lparr>coupon_rate := - (1 / 100), cashflow := 1,
                        present_value := exp (- (1 / 20)), projection_rate := - (1 / 100)\<rparr>,
             floating_row0],
          fixed_leg_pv = exp (- (1 / 20)), floating_leg_pv = 5 * exp (- (1 / 20)),
          npv = 6 * exp (- (1 / 20))\<rparr>
   \<and> payer (swap0\<lparr>fixed_rate := - (1 / 100)\<rparr>) = ''fixed''
   \<and> leg (fixed_row0\<lparr>coupon_rate := - (1 / 100), cashflow := 1,
                        present_value := exp (- (1 / 20)), projection_rate := - (1 / 100)\<rparr>)
       = ''fixed''
   \<and> sgn (cashflow (fixed_row0\<lparr>coupon_rate := - (1 / 100), cashflow := 1,
                        present_value := exp (- (1 / 20)), projection_rate := - (1 / 100)\<rparr>))
       = (1::real)"
  by (simp add: swap0_def c0_def fixed_row0_def floating_row0_def eval_defs ln_div)


lemma bump_curve_nodes:
  assumes "constructed c"
  shows "\<exists>c' ds. bump_curve c b = Inr c' \<and> tenors c' = tenors c
     \<and> discount_factors c' = Some ds \<and> length ds = length (tenors c)
     \<and> length (zero_rates c') = length (tenors c)
     \<and> (\<forall>i<length (tenors c).
            ds ! i = discount_factor c (tenors c ! i) * exp (- (b / 10000) * tenors c ! i)
          \<and> zero_rates c' ! i = - ln (ds ! i) / tenors c ! i)"
  unfolding bump_curve_ok [OF assms] by (simp del: divide_minus_left)

lemma price_with_risk_Inr:
  assumes "price_with_risk swap dc fc b = Inr r"
  shows "\<exists>base bd bf bumped.
           price \<lparr>discount_curve = dc, forward_curve = fc\<rparr> swap = Inr base
         \<and> bump_curve dc b = Inr bd \<and> bump_curve fc b = Inr bf
         \<and> price \<lparr>discount_curve = bd, forward_curve = bf\<rparr> swap = Inr bumped
         \<and> pricing r = base \<and> risk_npv r = npv base \<and> risk_cashflows r = cashflows base
         \<and> pv01 r = npv bumped - npv base \<and> dv01 r = pv01 r"
  using assms by (auto simp: price_with_risk_def Let_def split: sum.splits)

lemma price_with_risk_returns:
  assumes "constructed dc" "constructed fc"
    "distinct (tenors fc) \<or> list_all (\<lambda>t. discount_factor fc t \<noteq> 0) (tenors fc)"
    "price \<lparr>discount_curve = dc, forward_curve = fc\<rparr> swap = Inr base"
  shows "\<exists>r. price_with_risk swap dc fc b = Inr r"
proof -
  obtain bd where bd: "bump_curve dc b = Inr bd" using bump_curve_ok [OF assms(1)] by blast
  obtain bf where bf: "bump_curve fc b = Inr bf" using bump_curve_ok [OF assms(2)] by blast
  have "discount_factor (forward_curve \<lparr>discount_curve = bd, forward_curve = bf\<rparr>) t \<noteq> 0"
    if "discount_factor (forward_curve \<lparr>discount_curve = dc, forward_curve = fc\<rparr>) t \<noteq> 0"
    for t
    using assms(3)
  proof
    assume "distinct (tenors fc)"
    then show ?thesis
      using bumped_discount_factor_transfer [OF assms(2) _ bf] that by simp
  next
    assume "list_all (\<lambda>t. discount_factor fc t \<noteq> 0) (tenors fc)"
    then show ?thesis
      using bumped_discount_factor_nonzero [OF assms(2) bf] by simp
  qed
  from price_transfer [OF assms(4) this]
  obtain bumped where "price \<lparr>discount_curve = bd, forward_curve = bf\<rparr> swap = Inr bumped"
    by blast
  then show ?thesis using assms(4) bd bf by (simp add: price_with_risk_def Let_def)
qed

text \<open>
  On the forward curve \<open>c1\<close>, whose tenor 2 is repeated with a zero in the cache at its second
  copy, the base pricing of \<open>swap0\<close> returns and the discount factor at the last node is not
  zero, yet \<open>price_with_risk\<close> raises: the bumped cache is zero at both copies of the node, and
  the bumped forward rate of the period that ends at one year divides by zero.
\<close>

lemma c1_constructed: "constructed c1"
  by (simp add: c1_def constructed_def)

lemma c1_discount_factors:
  "discount_factor c1 (1 / 2) \<noteq> 0" "discount_factor c1 1 \<noteq> 0" "discount_factor c1 2 = 0"
  "discount_factor c1 3 = 7 / 10"
  by (simp_all add: c1_def discount_factor_def np_interp_log_def log_df_def exp_log_def)

lemma c1_price: "\<exists>base. price \<lparr>discount_curve = c0, forward_curve = c1\<rparr> swap0 = Inr base"
  using c1_discount_factors(2) by (simp add: swap0_def c0_def eval_defs ln_div)

lemma c1_bump_curve:
  "\<exists>bf ds. bump_curve c1 1 = Inr bf \<and> tenors bf = [1 / 2, 2, 2, 3]
     \<and> discount_factors bf = Some ds \<and> length ds = 4 \<and> ds ! 0 \<noteq> 0 \<and> ds ! 1 = 0"
  unfolding bump_curve_ok [OF c1_constructed]
  using c1_discount_factors(1,3) by (simp add: c1_def)

lemma price_with_risk_repeated_tenor:
  "constructed c0 \<and> constructed c1 \<and> discount_factor c1 (last (tenors c1)) \<noteq> 0
   \<and> (\<exists>base. price \<lparr>discount_curve = c0, forward_curve = c1\<rparr> swap0 = Inr base)
   \<and> price_with_risk swap0 c0 c1 1 = Inl ZeroDivisionError"
proof -
  obtain base where b: "price \<lparr>discount_curve = c0, forward_curve = c1\<rparr> swap0 = Inr base"
    using c1_price by blast
  obtain bd where bd: "bump_curve c0 1 = Inr bd" using bump_curve_ok [OF c0_constructed] by blast
  obtain bf ds where bf: "bump_curve c1 1 = Inr bf" "tenors bf = [1 / 2, 2, 2, 3]"
    "discount_factors bf = Some ds" "length ds = 4" "ds ! 0 \<noteq> 0" "ds ! 1 = 0"
    using c1_bump_curve by blast
  obtain d0 d1 d2 d3 where ds: "ds = [d0, d1, d2, d3]"
    using bf(4) by (auto simp: length_Suc_conv numeral_eq_Suc)
  have z: "discount_factor bf 1 = 0"
    using bf(2,3,5,6) unfolding ds
    by (simp add: discount_factor_def np_interp_log_def log_df_def exp_log_def)
  have "price \<lparr>discount_curve = bd, forward_curve = bf\<rparr> swap0 = Inl ZeroDivisionError"
    using z by (simp add: swap0_def eval_defs)
  then have "price_with_risk swap0 c0 c1 1 = Inl ZeroDivisionError"
    using b bd bf(1) by (simp add: price_with_risk_def)
  moreover have "discount_factor c1 (last (tenors c1)) \<noteq> 0"
    using c1_discount_factors(4) by (simp add: c1_def)
  ultimately show ?thesis using b c0_constructed c1_constructed by blast
qed

text \<open>
  C3. \<open>bump_curve\<close> keeps the tenors of a constructed curve and gives node \<open>i\<close> the discount
  factor \<open>discount_factor t_i * exp (- (bump_bp / 10000) * t_i)\<close> and the zero rate
  \<open>- ln (new DF) / t_i\<close>. Whatever \<open>price_with_risk\<close> returns carries the base pricing and its
  NPV, and \<open>pv01 = dv01 = bumped NPV - base NPV\<close>, the bumped NPV being the price under both
  curves bumped by \<open>bump_bp\<close>. It does return when the base pricing does, on constructed curves
  with a forward curve whose tenors are distinct or whose discount factor is not zero at any
  of its nodes; and it fails with the error of the base pricing when that fails. (With a
  repeated tenor the value at that node is read from the last of its cache entries; a zero
  there enters the bumped cache at every copy of the node, and the bumped forward rate of a
  period ending before the node then divides by zero where the base one does not.)
\<close>

theorem price_with_risk_parallel:
  "(constructed c \<longrightarrow>
      (\<exists>c' ds. bump_curve c b = Inr c' \<and> tenors c' = tenors c
         \<and> discount_factors c' = Some ds \<and> length ds = length (tenors c)
         \<and> length (zero_rates c') = length (tenors c)
         \<and> (\<forall>i<length (tenors c).
                ds ! i = discount_factor c (tenors c ! i) * exp (- (b / 10000) * tenors c ! i)
              \<and> zero_rates c' ! i = - ln (ds ! i) / tenors c ! i)))
   \<and> (price_with_risk swap dc fc b = Inr r \<longrightarrow>
      (\<exists>base bd bf bumped.
           price \<lparr>discount_curve = dc, forward_curve = fc\<rparr> swap = Inr base
         \<and> bump_curve dc b = Inr bd \<and> bump_curve fc b = Inr bf
         \<and> price \<lparr>discount_curve = bd, forward_curve = bf\<rparr> swap = Inr bumped
         \<and> pricing r = base \<and> risk_npv r = npv base \<and> risk_cashflows r = cashflows base
         \<and> pv01 r = npv bumped - npv base \<and> dv01 r = pv01 r))
   \<and> (constructed dc \<and> constructed fc
       \<and> (distinct (tenors fc) \<or> list_all (\<lambda>t. discount_factor fc t \<noteq> 0) (tenors fc))
       \<and> price \<lparr>discount_curve = dc, forward_curve = fc\<rparr> swap = Inr base0 \<longrightarrow>
      (\<exists>r'. price_with_risk swap dc fc b = Inr r'))
   \<and> (price \<lparr>discount_curve = dc, forward_curve = fc\<rparr> swap = Inl e \<longrightarrow>
      price_with_risk swap dc fc b = Inl e)"
proof (intro conjI impI)
  assume "constructed c"
  then show "\<exists>c' ds. bump_curve c b = Inr c' \<and> tenors c' = tenors c
         \<and> discount_factors c' = Some ds \<and> length ds = length (tenors c)
         \<and> length (zero_rates c') = length (tenors c)
         \<and> (\<forall>i<length (tenors c).
                ds ! i = discount_factor c (tenors c ! i) * exp (- (b / 10000) * tenors c ! i)
              \<and> zero_rates c' ! i = - ln (ds ! i) / tenors c ! i)"
    by (rule bump_curve_nodes)
next
  assume "price_with_risk swap dc fc b = Inr r"
  then show "\<exists>base bd bf bumped.
           price \<lparr>discount_curve = dc, forward_curve = fc\<rparr> swap = Inr base
         \<and> bump_curve dc b = Inr bd \<and> bump_curve fc b = Inr bf
         \<and> price \<lparr>discount_curve = bd, forward_curve = bf\<rparr> swap = Inr bumped
         \<and> pricing r = base \<and> risk_npv r = npv base \<and> risk_cashflows r = cashflows base
         \<and> pv01 r = npv bumped - npv base \<and> dv01 r = pv01 r"
    by (rule price_with_risk_Inr)
next
  assume "constructed dc \<and> constructed fc
       \<and> (distinct (tenors fc) \<or> list_all (\<lambda>t. discount_factor fc t \<noteq> 0) (tenors fc))
       \<and> price \<lparr>discount_curve = dc, forward_curve = fc\<rparr> swap = Inr base0"
  then show "\<exists>r'. price_with_risk swap dc fc b = Inr r'"
    by (elim conjE) (rule price_with_risk_returns)
next
  assume "price \<lparr>discount_curve = dc, forward_curve = fc\<rparr> swap = Inl e"
  then show "price_with_risk swap dc fc b = Inl e"
    by (simp add: price_with_risk_def)
qed

theorem price_with_risk_parallel_witness:
  "constructed c0 \<and> distinct (tenors c0)
   \<and> list_all (\<lambda>t. discount_factor c0 t \<noteq> 0) (tenors c0)
   \<and> price \<lparr>discount_curve = c0, forward_curve = c0\<rparr> swap0 = Inr pricing0
   \<and> (\<exists>c' ds. bump_curve c0 1 = Inr c' \<and> tenors c' = [1] \<and> discount_factors c' = Some ds
         \<and> ds ! 0 = discount_factor c0 1 * exp (- (1 / 10000) * 1)
         \<and> zero_rates c' ! 0 = - ln (ds ! 0) / 1)
   \<and> (\<exists>r. price_with_risk swap0 c0 c0 1 = Inr r \<and> pricing r = pricing0 \<and> risk_npv r = 0
         \<and> dv01 r = pv01 r
         \<and> (\<exists>bd bf bumped. bump_curve c0 1 = Inr bd \<and> bump_curve c0 1 = Inr bf
               \<and> price \<lparr>discount_curve = bd, forward_curve = bf\<rparr> swap0 = Inr bumped
               \<and> pv01 r = npv bumped - 0))
   \<and> price \<lparr>discount_curve = c0, forward_curve = c0\<rparr> (swap0\<lparr>fixed_leg_frequency := 0\<rparr>)
       = Inl (ValueError ''Payments per year must be positive'')
   \<and> price_with_risk (swap0\<lparr>fixed_leg_frequency := 0\<rparr>) c0 c0 1
       = Inl (ValueError ''Payments per year must be positive'')"
proof -
  note T = price_with_risk_parallel
    [where c = c0 and b = 1 and swap = swap0 and dc = c0 and fc = c0 and ?base0.0 = pricing0]
  obtain r where r: "price_with_risk swap0 c0 c0 1 = Inr r"
    using T c0_constructed c0_nodes_nonzero price0 by blast
  have npv0: "npv pricing0 = 0" by (simp add: pricing0_def)
  have a: "\<exists>r. price_with_risk swap0 c0 c0 1 = Inr r \<and> pricing r = pricing0 \<and> risk_npv r = 0
         \<and> dv01 r = pv01 r
         \<and> (\<exists>bd bf bumped. bump_curve c0 1 = Inr bd \<and> bump_curve c0 1 = Inr bf
               \<and> price \<lparr>discount_curve = bd, forward_curve = bf\<rparr> swap0 = Inr bumped
               \<and> pv01 r = npv bumped - 0)"
    using T [where r = r] r price0 npv0 by auto
  have b: "\<exists>c' ds. bump_curve c0 1 = Inr c' \<and> tenors c' = [1] \<and> discount_factors c' = Some ds
         \<and> ds ! 0 = discount_factor c0 1 * exp (- (1 / 10000) * 1)
         \<and> zero_rates c' ! 0 = - ln (ds ! 0) / 1"
  proof -
    have t0: "tenors c0 = [1]" by (simp add: c0_def)
    from T [where r = r] c0_constructed obtain c' ds where
      cb: "bump_curve c0 1 = Inr c'" "tenors c' = tenors c0" "discount_factors c' = Some ds"
      and nodes: "\<forall>i<length (tenors c0).
                ds ! i = discount_factor c0 (tenors c0 ! i) * exp (- (1 / 10000) * tenors c0 ! i)
              \<and> zero_rates c' ! i = - ln (ds ! i) / tenors c0 ! i"
      by blast
    have "ds ! 0 = discount_factor c0 1 * exp (- (1 / 10000) * 1)
            \<and> zero_rates c' ! 0 = - ln (ds ! 0) / 1"
      using nodes unfolding t0 by simp
    then show ?thesis using cb unfolding t0 by blast
  qed
  have c: "price_with_risk (swap0\<lparr>fixed_leg_frequency := 0\<rparr>) c0 c0 1
       = Inl (ValueError ''Payments per year must be positive'')"
    using price_with_risk_parallel
      [where swap = "swap0\<lparr>fixed_leg_frequency := 0\<rparr>" and dc = c0 and fc = c0 and b = 1
         and e = "ValueError ''Payments per year must be positive''"]
      price0_bad_frequency by blast
  have d: "distinct (tenors c0)" by (simp add: c0_def)
  show ?thesis
    using a b c d c0_constructed c0_nodes_nonzero price0 price0_bad_frequency by blast
qed


lemma calculate_key_rate_dv01_Inr:
  assumes "calculate_key_rate_dv01 swap dc fc kts b = Inr m"
  shows "\<exists>base. price \<lparr>discount_curve = dc, forward_curve = fc\<rparr> swap = Inr base
       \<and> fmdom' m = set kts
       \<and> (\<forall>k \<in> set kts. \<exists>sd sf sp.
             apply_key_rate_shift dc k b None = Inr sd
           \<and> apply_key_rate_shift fc k b None = Inr sf
           \<and> price \<lparr>discount_curve = sd, forward_curve = sf\<rparr> swap = Inr sp
           \<and> fmlookup m k = Some (npv sp - npv base))"
proof -
  from assms obtain base where
    base: "price \<lparr>discount_curve = dc, forward_curve = fc\<rparr> swap = Inr base"
    and loop: "key_rate_loop swap dc fc b (npv base) kts fmempty = Inr m"
    by (auto simp: calculate_key_rate_dv01_def split: sum.splits)
  note L = key_rate_loop_Inr [OF loop]
  have "fmdom' m = set kts"
  proof (rule set_eqI)
    fix k
    show "k \<in> fmdom' m \<longleftrightarrow> k \<in> set kts"
    proof (cases "k \<in> set kts")
      case True
      then obtain v where "fmlookup m k = Some v" using L by blast
      then show ?thesis using True by (simp add: fmdom'I)
    next
      case False
      then have "fmlookup m k = None" using L by simp
      then show ?thesis using False by (simp add: fmdom'_notI)
    qed
  qed
  then show ?thesis using base L by blast
qed

lemma calculate_key_rate_dv01_returns:
  assumes "constructed dc" "constructed fc"
    "price \<lparr>discount_curve = dc, forward_curve = fc\<rparr> swap = Inr base"
  shows "\<exists>m. calculate_key_rate_dv01 swap dc fc kts b = Inr m"
proof -
  have "\<forall>k \<in> set kts. \<exists>sd sf sp.
            apply_key_rate_shift dc k b None = Inr sd \<and> apply_key_rate_shift fc k b None = Inr sf
            \<and> price \<lparr>discount_curve = sd, forward_curve = sf\<rparr> swap = Inr sp"
    using key_rate_buckets_price [OF assms] by blast
  from key_rate_loop_returns [OF this]
  show ?thesis using assms(3) by (simp add: calculate_key_rate_dv01_def)
qed

text \<open>
  C7. On a constructed curve \<open>apply_key_rate_shift\<close> keeps the tenors and adds to the zero rate
  of each node the tent \<open>shift_bp * (1 - |t - key_tenor| / width) / 10000\<close> where
  \<open>|t - key_tenor| \<le> width\<close> and 0 elsewhere; the width is the one supplied or, by default,
  1 for \<open>key_tenor < 1\<close>, 2 for \<open>1 \<le> key_tenor \<le> 5\<close>, 3 beyond. What
  \<open>calculate_key_rate_dv01\<close> returns maps exactly the key tenors, each to
  \<open>shifted NPV - base NPV\<close> for the price under both curves shifted at that tenor; it returns
  whenever the base pricing does on constructed curves, and fails with the error of the base
  pricing otherwise. (Division is that of the reals: a supplied width of 0 at
  \<open>t = key_tenor\<close>, where numpy yields nan, is outside the model.)
\<close>

theorem key_rate_shift_and_dv01:
  "(constructed c \<longrightarrow>
      (\<exists>c'. apply_key_rate_shift c k s w = Inr c' \<and> tenors c' = tenors c
         \<and> length (zero_rates c') = length (tenors c)
         \<and> (\<forall>i<length (tenors c). zero_rates c' ! i = zero_rates c ! i +
              (if \<bar>tenors c ! i - k\<bar>
                    \<le> (case w of None \<Rightarrow> (if k < 1 then 1 else if k \<le> 5 then 2 else 3)
                        | Some v \<Rightarrow> v)
               then s * (1 - \<bar>tenors c ! i - k\<bar>
                     / (case w of None \<Rightarrow> (if k < 1 then 1 else if k \<le> 5 then 2 else 3)
                        | Some v \<Rightarrow> v))
                    / 10000
               else 0))))
   \<and> (calculate_key_rate_dv01 swap dc fc kts b = Inr m \<longrightarrow>
      (\<exists>base. price \<lparr>discount_curve = dc, forward_curve = fc\<rparr> swap = Inr base
         \<and> fmdom' m = set kts
         \<and> (\<forall>kt \<in> set kts. \<exists>sd sf sp.
               apply_key_rate_shift dc kt b None = Inr sd
             \<and> apply_key_rate_shift fc kt b None = Inr sf
             \<and> price \<lparr>discount_curve = sd, forward_curve = sf\<rparr> swap = Inr sp
             \<and> fmlookup m kt = Some (npv sp - npv base))))
   \<and> (constructed dc \<and> constructed fc
       \<and> price \<lparr>discount_curve = dc, forward_curve = fc\<rparr> swap = Inr base0 \<longrightarrow>
      (\<exists>m'. calculate_key_rate_dv01 swap dc fc kts b = Inr m'))
   \<and> (price \<lparr>discount_curve = dc, forward_curve = fc\<rparr> swap = Inl e \<longrightarrow>
      calculate_key_rate_dv01 swap dc fc kts b = Inl e)"
proof (intro conjI impI)
  assume "constructed c"
  then show "\<exists>c'. apply_key_rate_shift c k s w = Inr c' \<and> tenors c' = tenors c
         \<and> length (zero_rates c') = length (tenors c)
         \<and> (\<forall>i<length (tenors c). zero_rates c' ! i = zero_rates c ! i +
              (if \<bar>tenors c ! i - k\<bar>
                    \<le> (case w of None \<Rightarrow> (if k < 1 then 1 else if k \<le> 5 then 2 else 3)
                        | Some v \<Rightarrow> v)
               then s * (1 - \<bar>tenors c ! i - k\<bar>
                     / (case w of None \<Rightarrow> (if k < 1 then 1 else if k \<le> 5 then 2 else 3)
                        | Some v \<Rightarrow> v))
                    / 10000
               else 0))"
    by (rule apply_key_rate_shift_nodes)
next
  assume "calculate_key_rate_dv01 swap dc fc kts b = Inr m"
  then show "\<exists>base. price \<lparr>discount_curve = dc, forward_curve = fc\<rparr> swap = Inr base
         \<and> fmdom' m = set kts
         \<and> (\<forall>kt \<in> set kts. \<exists>sd sf sp.
               apply_key_rate_shift dc kt b None = Inr sd
             \<and> apply_key_rate_shift fc kt b None = Inr sf
             \<and> price \<lparr>discount_curve = sd, forward_curve = sf\<rparr> swap = Inr sp
             \<and> fmlookup m kt = Some (npv sp - npv base))"
    by (rule calculate_key_rate_dv01_Inr)
next
  assume "constructed dc \<and> constructed fc
       \<and> price \<lparr>discount_curve = dc, forward_curve = fc\<rparr> swap = Inr base0"
  then show "\<exists>m'. calculate_key_rate_dv01 swap dc fc kts b = Inr m'"
    by (elim conjE) (rule calculate_key_rate_dv01_returns)
next
  assume "price \<lparr>discount_curve = dc, forward_curve = fc\<rparr> swap = Inl e"
  then show "calculate_key_rate_dv01 swap dc fc kts b = Inl e"
    by (simp add: calculate_key_rate_dv01_def)
qed

theorem key_rate_shift_and_dv01_witness:
  "constructed c0
   \<and> price \<lparr>discount_curve = c0, forward_curve = c0\<rparr> swap0 = Inr pricing0
   \<and> (\<exists>c'. apply_key_rate_shift c0 2 1 None = Inr c' \<and> tenors c' = [1]
         \<and> zero_rates c' ! 0 = 1 / 20 + 1 * (1 - 1 / 2) / 10000)
   \<and> (\<exists>m. calculate_key_rate_dv01 swap0 c0 c0 [2] 1 = Inr m \<and> fmdom' m = {2}
         \<and> (\<exists>sd sf sp. apply_key_rate_shift c0 2 1 None = Inr sd
               \<and> apply_key_rate_shift c0 2 1 None = Inr sf
               \<and> price \<lparr>discount_curve = sd, forward_curve = sf\<rparr> swap0 = Inr sp
               \<and> fmlookup m 2 = Some (npv sp - 0)))
   \<and> price \<lparr>discount_curve = c0, forward_curve = c0\<rparr> (swap0\<lparr>fixed_leg_frequency := 0\<rparr>)
       = Inl (ValueError ''Payments per year must be positive'')
   \<and> calculate_key_rate_dv01 (swap0\<lparr>fixed_leg_frequency := 0\<rparr>) c0 c0 [2] 1
       = Inl (ValueError ''Payments per year must be positive'')"
proof -
  note T = key_rate_shift_and_dv01
    [where c = c0 and k = 2 and s = 1 and w = None and swap = swap0 and dc = c0 and fc = c0
       and kts = "[2]" and b = 1 and ?base0.0 = pricing0]
  obtain m where m: "calculate_key_rate_dv01 swap0 c0 c0 [2] 1 = Inr m"
    using T c0_constructed price0 by blast
  have npv0: "npv pricing0 = 0" by (simp add: pricing0_def)
  have a: "\<exists>m. calculate_key_rate_dv01 swap0 c0 c0 [2] 1 = Inr m \<and> fmdom' m = {2}
         \<and> (\<exists>sd sf sp. apply_key_rate_shift c0 2 1 None = Inr sd
               \<and> apply_key_rate_shift c0 2 1 None = Inr sf
               \<and> price \<lparr>discount_curve = sd, forward_curve = sf\<rparr> swap0 = Inr sp
               \<and> fmlookup m 2 = Some (npv sp - 0))"
    using T [where m = m] m price0 npv0 by auto
  have b: "\<exists>c'. apply_key_rate_shift c0 2 1 None = Inr c' \<and> tenors c' = [1]
         \<and> zero_rates c' ! 0 = 1 / 20 + 1 * (1 - 1 / 2) / 10000"
  proof -
    have t0: "tenors c0 = [1]" "zero_rates c0 = [1 / 20]" by (simp_all add: c0_def)
    from T [where m = m] c0_constructed obtain c' where
      cb: "apply_key_rate_shift c0 2 1 None = Inr c'" "tenors c' = tenors c0"
      and nodes: "\<forall>i<length (tenors c0). zero_rates c' ! i = zero_rates c0 ! i +
              (if \<bar>tenors c0 ! i - 2\<bar>
                    \<le> (case None of None \<Rightarrow> (if (2::real) < 1 then 1 else if (2::real) \<le> 5 then 2 else 3)
                        | Some v \<Rightarrow> v)
               then 1 * (1 - \<bar>tenors c0 ! i - 2\<bar>
                     / (case None of None \<Rightarrow> (if (2::real) < 1 then 1 else if (2::real) \<le> 5 then 2 else 3)
                        | Some v \<Rightarrow> v))
                    / 10000
               else 0)"
      by blast
    have "zero_rates c' ! 0 = 1 / 20 + 1 * (1 - 1 / 2) / 10000"
      using nodes unfolding t0 by simp
    then show ?thesis using cb unfolding t0 by blast
  qed
  have c: "calculate_key_rate_dv01 (swap0\<lparr>fixed_leg_frequency := 0\<rparr>) c0 c0 [2] 1
       = Inl (ValueError ''Payments per year must be positive'')"
    using key_rate_shift_and_dv01
      [where swap = "swap0\<lparr>fixed_leg_frequency := 0\<rparr>" and dc = c0 and fc = c0 and b = 1
         and kts = "[2]" and e = "ValueError ''Payments per year must be positive''"]
      price0_bad_frequency by blast
  show ?thesis
    using a b c c0_constructed price0 price0_bad_frequency by blast
qed

end
